theory Spec2Isabelle
  imports Complex_Main
begin

section \<open>Python strings and the upload filename check\<close>

text \<open>
  A Python \<open>str\<close> is the list of its code points; \<open>ustr\<close> writes one from an ASCII
  literal. Paths and file contents, which the handlers only pass on, stay \<^typ>\<open>string\<close>.
\<close>

type_synonym ustring = "nat list"

definition ustr :: "string \<Rightarrow> ustring" where
  "ustr s = map of_char s"

text \<open>
  \<open>str.lower\<close> and \<open>str.upper\<close>. On ASCII they exchange \<open>A\<close>-\<open>Z\<close> and \<open>a\<close>-\<open>z\<close>.
  Outside ASCII they follow the case mapping of the Unicode database Python is built
  with, a table that is not in the source; it is taken as a parameter:
  \<open>lower_nonascii before c after\<close> is the lower-case form of the code point \<open>c\<close>
  standing between \<open>before\<close> and \<open>after\<close> (the form of U+03A3 depends on its
  neighbours), \<open>upper_nonascii c\<close> the upper-case form of \<open>c\<close>. A form can be several
  code points long.
\<close>

record case_map =
  lower_nonascii :: "ustring \<Rightarrow> nat \<Rightarrow> ustring \<Rightarrow> ustring"
  upper_nonascii :: "nat \<Rightarrow> ustring"

definition ascii_lower :: "nat \<Rightarrow> nat" where
  "ascii_lower c = (if 65 \<le> c \<and> c \<le> 90 then c + 32 else c)"

definition ascii_upper :: "nat \<Rightarrow> nat" where
  "ascii_upper c = (if 97 \<le> c \<and> c \<le> 122 then c - 32 else c)"

fun lower_from :: "case_map \<Rightarrow> ustring \<Rightarrow> ustring \<Rightarrow> ustring" where
  "lower_from u before [] = []"
| "lower_from u before (c # after) =
     (if c < 128 then [ascii_lower c] else lower_nonascii u before c after) @
     lower_from u (before @ [c]) after"

definition lower :: "case_map \<Rightarrow> ustring \<Rightarrow> ustring" where
  "lower u s = lower_from u [] s"

definition upper :: "case_map \<Rightarrow> ustring \<Rightarrow> ustring" where
  "upper u s = concat (map (\<lambda>c. if c < 128 then [ascii_upper c] else upper_nonascii u c) s)"

text \<open>\<open>s.rsplit(sep, 1)\<close>: split once at the last occurrence of \<open>sep\<close>.\<close>

definition rsplit1 :: "'a \<Rightarrow> 'a list \<Rightarrow> 'a list list" where
  "rsplit1 sep s =
     (if sep \<in> set s
      then [rev (tl (dropWhile (\<lambda>c. c \<noteq> sep) (rev s))), rev (takeWhile (\<lambda>c. c \<noteq> sep) (rev s))]
      else [s])"

text \<open>\<open>xs[i]\<close> for \<open>i \<ge> 0\<close>; \<open>None\<close> stands for Python's IndexError.\<close>

definition py_index :: "'a list \<Rightarrow> nat \<Rightarrow> 'a option" where
  "py_index xs i = (if i < length xs then Some (xs ! i) else None)"

text \<open>\<open>ALLOWED_EXTENSIONS = {'wav', 'mp3', 'm4a', 'flac', 'ogg'}\<close>\<close>

definition ALLOWED_EXTENSIONS :: "ustring set" where
  "ALLOWED_EXTENSIONS = {ustr ''wav'', ustr ''mp3'', ustr ''m4a'', ustr ''flac'', ustr ''ogg''}"

text \<open>
  \<open>return '.' in filename and filename.rsplit('.', 1)[1].lower() in ALLOWED_EXTENSIONS\<close>;
  46 is the code point of the dot. The index \<open>[1]\<close> is only evaluated when the filename
  has a dot (\<open>and\<close> is short-circuit), where it always exists (lemma \<open>rsplit1_index\<close>).
\<close>

definition allowed_file :: "case_map \<Rightarrow> ustring \<Rightarrow> bool" where
  "allowed_file u filename =
     (46 \<in> set filename \<and>
      (case py_index (rsplit1 46 filename) 1 of
         Some ext \<Rightarrow> lower u ext \<in> ALLOWED_EXTENSIONS
       | None \<Rightarrow> False))"

text \<open>
  Case-insensitivity said without \<open>lower\<close>. Two code points are the
  same up to the case of a letter when they are equal or are the two cases of one of
  the 26 letters; two strings, when they are so code point by code point.
  \<open>folded\<close> is the table of the lower-case forms of the ASCII code points.
\<close>

definition same_letter :: "nat \<Rightarrow> nat \<Rightarrow> bool" where
  "same_letter c d =
     (c = d \<or>
      (c, d) \<in> set (zip (ustr ''ABCDEFGHIJKLMNOPQRSTUVWXYZ'') (ustr ''abcdefghijklmnopqrstuvwxyz'')) \<or>
      (d, c) \<in> set (zip (ustr ''ABCDEFGHIJKLMNOPQRSTUVWXYZ'') (ustr ''abcdefghijklmnopqrstuvwxyz'')))"

definition same_up_to_case :: "ustring \<Rightarrow> ustring \<Rightarrow> bool" where
  "same_up_to_case s t = list_all2 same_letter s t"

definition folded :: "nat \<Rightarrow> nat" where
  "folded c =
     (case map_of (zip (ustr ''ABCDEFGHIJKLMNOPQRSTUVWXYZ'') (ustr ''abcdefghijklmnopqrstuvwxyz'')) c of
        Some l \<Rightarrow> l
      | None \<Rightarrow> c)"

text \<open>
  What is used of the table: the lower-case form of a code point outside ASCII holds a
  code point outside ASCII or the letter \<open>k\<close> (code point 107). In the Unicode database
  U+212A KELVIN SIGN is the one code point outside ASCII whose lower-case form is
  ASCII, and that form is \<open>k\<close>.
\<close>

definition lower_marks_nonascii :: "case_map \<Rightarrow> bool" where
  "lower_marks_nonascii u =
     (\<forall>before c after. 128 \<le> c \<longrightarrow>
        (\<exists>x \<in> set (lower_nonascii u before c after). 128 \<le> x \<or> x = 107))"

section \<open>Values exchanged with the outside world\<close>

text \<open>
  A JSON value as \<open>jsonify\<close> receives it: a Python dict is an object whose members are
  listed in insertion order.
\<close>

datatype json =
    JNull
  | JBool bool
  | JInt int
  | JFloat real
  | JStr string
  | JList "json list"
  | JObj "(string \<times> json) list"

definition json_get :: "json \<Rightarrow> string \<Rightarrow> json option" where
  "json_get j k = (case j of JObj kvs \<Rightarrow> map_of kvs k | _ \<Rightarrow> None)"

definition json_keys :: "json \<Rightarrow> string list" where
  "json_keys j = (case j of JObj kvs \<Rightarrow> map fst kvs | _ \<Rightarrow> [])"

text \<open>A handler returns a JSON body and an HTTP status (200 when the source gives none).\<close>

type_synonym response = "json \<times> nat"

text \<open>
  Exceptions as values: the class and the text that \<open>str(e)\<close> returns (for an error
  raised by the operating system the model keeps the path only; the rest of the text
  is the platform's). The first five classes derive from \<open>Exception\<close>: the four the
  file system raises, and \<open>EngineFault\<close> for any other subclass of \<open>Exception\<close> the
  engine raises. The last four derive from \<open>BaseException\<close> only: the three built-in
  ones and \<open>OtherBaseException\<close> for a class some library derives from it.
  \<open>is_Exception e\<close> is \<open>isinstance(e, Exception)\<close>, what \<open>except Exception\<close> tests.
\<close>

datatype exn_class =
    FileNotFoundError
  | FileExistsError
  | IsADirectoryError
  | PermissionError
  | EngineFault
  | SystemExit
  | KeyboardInterrupt
  | GeneratorExit
  | OtherBaseException

datatype exn = Raise exn_class string

fun exn_str :: "exn \<Rightarrow> string" where
  "exn_str (Raise c msg) = msg"

fun derives_from_Exception :: "exn_class \<Rightarrow> bool" where
  "derives_from_Exception FileNotFoundError = True"
| "derives_from_Exception FileExistsError = True"
| "derives_from_Exception IsADirectoryError = True"
| "derives_from_Exception PermissionError = True"
| "derives_from_Exception EngineFault = True"
| "derives_from_Exception SystemExit = False"
| "derives_from_Exception KeyboardInterrupt = False"
| "derives_from_Exception GeneratorExit = False"
| "derives_from_Exception OtherBaseException = False"

fun is_Exception :: "exn \<Rightarrow> bool" where
  "is_Exception (Raise c msg) = derives_from_Exception c"

section \<open>The file system and the inference engine\<close>

text \<open>
  The part of the world the handlers act on: regular files (path to contents) and
  directories, relative to the working directory, with POSIX paths. \<open>write_denied\<close> and
  \<open>remove_denied\<close> are the paths on which the operating system refuses a write or a
  removal (permissions, a file held open by another process); \<open>engine_calls\<close> records
  each invocation of \<open>model.transcribe\<close> with its argument.
\<close>

record world =
  fs_files :: "string \<rightharpoonup> string"
  fs_dirs :: "string set"
  write_denied :: "string set"
  remove_denied :: "string set"
  engine_calls :: "string list"

definition os_path_exists :: "world \<Rightarrow> string \<Rightarrow> bool" where
  "os_path_exists w p = (fs_files w p \<noteq> None \<or> p \<in> fs_dirs w)"

text \<open>\<open>os.path.join(a, b)\<close> of posixpath.\<close>

definition os_path_join :: "string \<Rightarrow> string \<Rightarrow> string" where
  "os_path_join a b =
     (if take 1 b = ''/'' then b
      else if a = [] \<or> last a = CHR ''/'' then a @ b
      else a @ ''/'' @ b)"

text \<open>The directory a path lies in: the text before its last \<open>/\<close>; empty for a bare name.\<close>

definition parent_dir :: "string \<Rightarrow> string" where
  "parent_dir p =
     rev (dropWhile (\<lambda>c. c = CHR ''/'') (dropWhile (\<lambda>c. c \<noteq> CHR ''/'') (rev p)))"

definition dir_exists :: "world \<Rightarrow> string \<Rightarrow> bool" where
  "dir_exists w d = (d = [] \<or> d \<in> fs_dirs w)"

text \<open>\<open>os.makedirs(p)\<close> for a path of one component (\<open>UPLOAD_FOLDER\<close> is one).\<close>

definition os_makedirs :: "world \<Rightarrow> string \<Rightarrow> exn + world" where
  "os_makedirs w p =
     (if os_path_exists w p then Inl (Raise FileExistsError p)
      else if p \<in> write_denied w then Inl (Raise PermissionError p)
      else Inr (w\<lparr>fs_dirs := insert p (fs_dirs w)\<rparr>))"

text \<open>
  \<open>file.save(dst)\<close> of werkzeug's FileStorage: \<open>open(dst, "wb")\<close>, copy the stream,
  close. A refused write leaves the file system as it was.
\<close>

definition file_save :: "world \<Rightarrow> string \<Rightarrow> string \<Rightarrow> exn + world" where
  "file_save w content dst =
     (if dst \<in> fs_dirs w then Inl (Raise IsADirectoryError dst)
      else if \<not> dir_exists w (parent_dir dst) then Inl (Raise FileNotFoundError dst)
      else if dst \<in> write_denied w then Inl (Raise PermissionError dst)
      else Inr (w\<lparr>fs_files := (fs_files w)(dst \<mapsto> content)\<rparr>))"

definition os_remove :: "world \<Rightarrow> string \<Rightarrow> exn + world" where
  "os_remove w p =
     (if p \<in> fs_dirs w then Inl (Raise IsADirectoryError p)
      else if fs_files w p = None then Inl (Raise FileNotFoundError p)
      else if p \<in> remove_denied w then Inl (Raise PermissionError p)
      else Inr (w\<lparr>fs_files := (fs_files w)(p := None)\<rparr>))"

text \<open>What \<open>whisper.load_model(name, device)\<close> returns: the shared engine handle.\<close>

record engine_handle =
  model_name :: string
  model_device :: string

definition whisper_load_model :: "string \<Rightarrow> string \<Rightarrow> engine_handle" where
  "whisper_load_model name device = \<lparr>model_name = name, model_device = device\<rparr>"

text \<open>The dict \<open>model.transcribe\<close> returns, read at its keys \<open>text\<close>, \<open>segments\<close>, \<open>language\<close>.\<close>

record transcription =
  result_text :: string
  result_segments :: json
  result_language :: string

section \<open>Requests and the external collaborators\<close>

text \<open>One part of \<open>request.files\<close>: a werkzeug FileStorage.\<close>

record file_storage =
  filename :: ustring
  content_type :: string
  stream :: string

record request =
  files :: "string \<rightharpoonup> file_storage"
  content_length :: nat

text \<open>
  The behaviour of the libraries during one request, taken as parameters: the case
  mapping of \<open>str\<close>; werkzeug's \<open>secure_filename\<close>; the engine's \<open>transcribe\<close>, which
  reads the file system and returns a result or raises; \<open>time.time()\<close>, whose \<open>k\<close>-th
  reading within the handler is \<open>time_time k\<close>; \<open>traceback.format_exc()\<close>;
  \<open>datetime.now().isoformat()\<close>; and the float formatting \<open>f"{x:.2f}"\<close>. Logging is
  left out: it changes neither the response nor the file system.
\<close>

record env =
  str_case :: case_map
  secure_filename :: "ustring \<Rightarrow> string"
  whisper_transcribe :: "engine_handle \<Rightarrow> world \<Rightarrow> string \<Rightarrow> exn + transcription"
  time_time :: "nat \<Rightarrow> real"
  format_exc :: "exn \<Rightarrow> string"
  now_isoformat :: string
  format_2f :: "real \<Rightarrow> string"

text \<open>What \<open>torch.cuda\<close> reports during one request.\<close>

record cuda =
  is_available :: bool
  device_count :: int
  get_device_name :: string
  memory_allocated :: nat
  memory_reserved :: nat

section \<open>Module state set at start-up\<close>

record globals =
  DEVICE :: string
  model :: engine_handle
  start_time :: real
  load_time :: real

text \<open>
  Lines 45-52: \<open>DEVICE = "cuda" if torch.cuda.is_available() else "cpu"\<close>,
  \<open>start_time = time.time()\<close>, \<open>model = whisper.load_model("turbo", device=DEVICE)\<close>,
  \<open>load_time = time.time() - start_time\<close>.
\<close>

definition startup :: "bool \<Rightarrow> real \<Rightarrow> real \<Rightarrow> globals" where
  "startup cuda_available t0 t1 =
     (let device = (if cuda_available then ''cuda'' else ''cpu'') in
      \<lparr>DEVICE = device,
       model = whisper_load_model ''turbo'' device,
       start_time = t0,
       load_time = t1 - t0\<rparr>)"

definition UPLOAD_FOLDER :: string where
  "UPLOAD_FOLDER = ''uploads''"

definition MAX_CONTENT_LENGTH :: nat where
  "MAX_CONTENT_LENGTH = 50 * 1024 * 1024"


section \<open>POST /transcribe\<close>

text \<open>
  Lines 96-97: \<open>filename = secure_filename(file.filename)\<close>,
  \<open>filepath = os.path.join(app.config['UPLOAD_FOLDER'], filename)\<close>.
\<close>

definition upload_path :: "env \<Rightarrow> file_storage \<Rightarrow> string" where
  "upload_path e file = os_path_join UPLOAD_FOLDER (secure_filename e (filename file))"

text \<open>
  The text of the FileNotFoundError of line 114, before the path, as UTF-8 bytes.
\<close>

definition NOT_SAVED :: string where
  "NOT_SAVED = map char_of
     [237, 140, 140, 236, 157, 188, 236, 157, 180, 32, 236, 160, 128, 236, 158, 165, 235,
      144, 152, 236, 167, 128, 32, 236, 149, 138, 236, 149, 152, 236, 138, 181, 235, 139,
      136, 235, 139, 164, 58, 32 :: nat]"

text \<open>The two bodies the handler builds: lines 131-139 and lines 154-157.\<close>

definition success_body :: "env \<Rightarrow> transcription \<Rightarrow> json" where
  "success_body e result =
     (let transcribe_time = time_time e 2 - time_time e 1;
          total_time = time_time e 3 - time_time e 0 in
      JObj
        [(''text'', JStr (result_text result)),
         (''segments'', result_segments result),
         (''language'', JStr (result_language result)),
         (''processing_time'', JObj
            [(''transcribe'', JFloat transcribe_time),
             (''total'', JFloat total_time)])])"

definition error_body :: "env \<Rightarrow> exn \<Rightarrow> json" where
  "error_body e x = JObj [(''error'', JStr (exn_str x)), (''traceback'', JStr (format_exc e x))]"

text \<open>
  Lines 95-114, the storing of the upload: create the upload folder when it is missing,
  save the stream, check that the file exists. The result is the exception raised, if
  any, with the world as it is then.
\<close>

definition save_upload :: "env \<Rightarrow> file_storage \<Rightarrow> world \<Rightarrow> (exn + unit) \<times> world" where
  "save_upload e file w =
     (let filepath = upload_path e file in
      case (if \<not> os_path_exists w UPLOAD_FOLDER then os_makedirs w UPLOAD_FOLDER else Inr w) of
        Inl x \<Rightarrow> (Inl x, w)
      | Inr w1 \<Rightarrow>
          (case file_save w1 (stream file) filepath of
             Inl x \<Rightarrow> (Inl x, w1)
           | Inr w2 \<Rightarrow>
               if os_path_exists w2 filepath then (Inr (), w2)
               else (Inl (Raise FileNotFoundError (NOT_SAVED @ filepath)), w2)))"

text \<open>
  Lines 89-139, the body of the \<open>try\<close> statement: store the upload, call the engine,
  delete the file, build the success body. \<open>Inl\<close> is an exception leaving the body.
\<close>

definition transcribe_try ::
  "globals \<Rightarrow> env \<Rightarrow> file_storage \<Rightarrow> world \<Rightarrow> (exn + json) \<times> world" where
  "transcribe_try g e file w =
     (let filepath = upload_path e file in
      case save_upload e file w of
        (Inl x, w1) \<Rightarrow> (Inl x, w1)
      | (Inr u, w1) \<Rightarrow>
          (let w2 = w1\<lparr>engine_calls := engine_calls w1 @ [filepath]\<rparr> in
           case whisper_transcribe e (model g) w1 filepath of
             Inl x \<Rightarrow> (Inl x, w2)
           | Inr result \<Rightarrow>
               (case os_remove w2 filepath of
                  Inl x \<Rightarrow> (Inl x, w2)
                | Inr w3 \<Rightarrow> (Inr (success_body e result), w3))))"

text \<open>
  Lines 141-157, the body of the \<open>except Exception as e\<close> clause: try to delete the
  file if it exists, ignoring a failure of the deletion (the inner \<open>except:\<close> catches
  everything), and answer 500 with the error.
\<close>

definition transcribe_except ::
  "env \<Rightarrow> file_storage \<Rightarrow> exn \<Rightarrow> world \<Rightarrow> response \<times> world" where
  "transcribe_except e file x w =
     (let filepath = upload_path e file;
          w' = (if os_path_exists w filepath
                then (case os_remove w filepath of Inr w1 \<Rightarrow> w1 | Inl y \<Rightarrow> w)
                else w)
      in ((error_body e x, 500), w'))"

text \<open>
  The handler \<open>transcribe_audio\<close>, lines 70-157. It returns a response, or an exception
  leaves it: the clause of line 141 catches the instances of \<open>Exception\<close> only.
\<close>

definition transcribe_audio ::
  "globals \<Rightarrow> env \<Rightarrow> request \<Rightarrow> world \<Rightarrow> (exn + response) \<times> world" where
  "transcribe_audio g e req w =
     (case files req ''file'' of
        None \<Rightarrow> (Inr (JObj [(''error'', JStr ''No file provided'')], 400), w)
      | Some file \<Rightarrow>
          if filename file = [] then (Inr (JObj [(''error'', JStr ''No file selected'')], 400), w)
          else if \<not> allowed_file (str_case e) (filename file)
          then (Inr (JObj [(''error'', JStr ''File type not allowed'')], 400), w)
          else
            (case transcribe_try g e file w of
               (Inr body, w1) \<Rightarrow> (Inr (body, 200), w1)
             | (Inl x, w1) \<Rightarrow>
                 if is_Exception x
                 then (case transcribe_except e file x w1 of (resp, w2) \<Rightarrow> (Inr resp, w2))
                 else (Inl x, w1)))"

text \<open>
  Modelled from the spec: the request-size check of the HTTP boundary (Flask, configured
  by \<open>app.config['MAX_CONTENT_LENGTH']\<close> at line 64) is not part of the source. Section 6
  of the spec: "max body size 50 MiB (requests exceeding this are rejected by the
  boundary layer with an oversize error)". A request within the limit reaches the
  handler.
\<close>

datatype boundary_error = RequestEntityTooLarge

definition post_transcribe ::
  "globals \<Rightarrow> env \<Rightarrow> request \<Rightarrow> world \<Rightarrow> boundary_error + (exn + response) \<times> world" where
  "post_transcribe g e req w =
     (if content_length req > MAX_CONTENT_LENGTH then Inl RequestEntityTooLarge
      else Inr (transcribe_audio g e req w))"

section \<open>GET /health\<close>

text \<open>The handler \<open>health_check\<close>, lines 160-185; \<open>time_time e 0\<close> is its one clock reading.\<close>

definition health_check :: "globals \<Rightarrow> env \<Rightarrow> cuda \<Rightarrow> response" where
  "health_check g e cu =
     (let gpu_info = JObj
            [(''available'', JBool (is_available cu)),
             (''device_count'', JInt (if is_available cu then device_count cu else 0)),
             (''device_name'', if is_available cu then JStr (get_device_name cu) else JNull)];
          memory_info =
            (if is_available cu
             then JObj
               [(''allocated'', JStr (format_2f e (real (memory_allocated cu) / 1024 ^ 2) @ ''MB'')),
                (''cached'', JStr (format_2f e (real (memory_reserved cu) / 1024 ^ 2) @ ''MB''))]
             else JObj []);
          status_info = JObj
            [(''status'', JStr ''healthy''),
             (''model'', JStr ''whisper-large''),
             (''device'', JStr (DEVICE g)),
             (''gpu_info'', gpu_info),
             (''memory_info'', memory_info),
             (''uptime'', JFloat (time_time e 0 - start_time g)),
             (''timestamp'', JStr (now_isoformat e))]
      in (status_info, 200))"

section \<open>Serving requests\<close>

text \<open>
  The two routes. A request is rejected at the boundary, answered with a response, or
  left without one when an exception leaves its handler. No handler assigns a module
  variable (\<open>start_time\<close> at line 72 is a local of \<open>transcribe_audio\<close>), so the globals
  a request leaves are the ones it found.
\<close>

datatype http_request = PostTranscribe request | GetHealth

datatype reply = Rejected boundary_error | Reply response | Unhandled exn

definition dispatch ::
  "globals \<Rightarrow> env \<Rightarrow> cuda \<Rightarrow> http_request \<Rightarrow> world \<Rightarrow> reply \<times> globals \<times> world" where
  "dispatch g e cu r w =
     (case r of
        GetHealth \<Rightarrow> (Reply (health_check g e cu), g, w)
      | PostTranscribe req \<Rightarrow>
          (case post_transcribe g e req w of
             Inl b \<Rightarrow> (Rejected b, g, w)
           | Inr (Inr resp, w') \<Rightarrow> (Reply resp, g, w')
           | Inr (Inl x, w') \<Rightarrow> (Unhandled x, g, w')))"

text \<open>Requests served one after the other, each with its own environment.\<close>

fun serve ::
  "globals \<Rightarrow> (env \<times> cuda \<times> http_request) list \<Rightarrow> world \<Rightarrow> reply list \<times> globals \<times> world" where
  "serve g [] w = ([], g, w)"
| "serve g ((e, cu, r) # rs) w =
     (case dispatch g e cu r w of
        (rep, g1, w1) \<Rightarrow> (case serve g1 rs w1 of (reps, g2, w2) \<Rightarrow> (rep # reps, g2, w2)))"

section \<open>Requests handled concurrently\<close>

text \<open>
  \<open>app.run(..., threaded=True)\<close> (line 189) handles every request in a thread of its
  own. The control state of one thread inside \<open>transcribe_audio\<close>:
  \<^item> \<open>Received\<close>: the handler was entered (line 72);
  \<^item> \<open>Validated\<close>: the three checks of lines 76-87 passed;
  \<^item> \<open>Stored\<close>: the upload was saved and found (lines 96-114);
  \<^item> \<open>Transcribing\<close>: \<open>model.transcribe\<close> was called and has not returned (line 119);
  \<^item> \<open>Completed\<close>: \<open>model.transcribe\<close> returned (line 120);
  \<^item> \<open>Failed\<close>: an exception reached the \<open>except\<close> clause (line 141);
  \<^item> \<open>Responded\<close>: the handler returned, with this status;
  \<^item> \<open>Aborted\<close>: an exception the clause does not catch left the handler.
  The source takes no lock and waits on no queue between these points, so a thread's
  next state depends on its own state only.
\<close>

datatype phase =
    Received
  | Validated
  | Stored
  | Transcribing
  | Completed
  | Failed
  | Responded nat
  | Aborted

fun thread_next :: "phase \<Rightarrow> phase list" where
  "thread_next Received = [Validated, Responded 400]"
| "thread_next Validated = [Stored, Failed]"
| "thread_next Stored = [Transcribing]"
| "thread_next Transcribing = [Completed, Failed, Aborted]"
| "thread_next Completed = [Responded 200, Failed]"
| "thread_next Failed = [Responded 500]"
| "thread_next (Responded status) = []"
| "thread_next Aborted = []"

text \<open>One step of the server: thread \<open>i\<close> moves to \<open>p\<close>, one of its next states.\<close>

definition server_step :: "phase list \<Rightarrow> nat \<times> phase \<Rightarrow> phase list option" where
  "server_step s ev =
     (case ev of (i, p) \<Rightarrow>
        if i < length s \<and> p \<in> set (thread_next (s ! i)) then Some (s[i := p]) else None)"

fun run :: "phase list \<Rightarrow> (nat \<times> phase) list \<Rightarrow> phase list option" where
  "run s [] = Some s"
| "run s (ev # evs) = (case server_step s ev of None \<Rightarrow> None | Some s' \<Rightarrow> run s' evs)"

text \<open>The number of engine calls in flight.\<close>

definition in_flight :: "phase list \<Rightarrow> nat" where
  "in_flight s = length (filter (\<lambda>p. p = Transcribing) s)"

text \<open>The schedule that takes threads \<open>k, k + 1, ..., k + m - 1\<close> into the engine, in turn.\<close>

fun enter_engine :: "nat \<Rightarrow> nat \<Rightarrow> (nat \<times> phase) list" where
  "enter_engine k 0 = []"
| "enter_engine k (Suc m) =
     [(k, Validated), (k, Stored), (k, Transcribing)] @ enter_engine (Suc k) m"

section \<open>The handler step by step, on a shared file system\<close>

text \<open>
  The same handler, cut at every call that reads or changes what the threads share, so
  that the calls of different requests interleave. Each call of the operating system
  or of a library is one step. The point a thread has reached, with its locals:
  \<^item> \<open>At_start\<close>: line 72, before the three checks;
  \<^item> \<open>At_exists_folder\<close>: line 101, before \<open>os.path.exists(UPLOAD_FOLDER)\<close>;
  \<^item> \<open>At_makedirs\<close>: line 103, before \<open>os.makedirs\<close>;
  \<^item> \<open>At_save\<close>: line 107, before \<open>file.save(filepath)\<close>;
  \<^item> \<open>At_exists_file\<close>: line 110, before \<open>os.path.exists(filepath)\<close>;
  \<^item> \<open>At_transcribe\<close>: line 119, before the call of \<open>model.transcribe\<close>;
  \<^item> \<open>In_transcribe\<close>: inside the engine, which has read the file and will return
    or raise what it holds;
  \<^item> \<open>At_remove\<close>: line 124, before \<open>os.remove(filepath)\<close>;
  \<^item> \<open>In_except\<close>: line 148, in the \<open>except\<close> clause before \<open>os.path.exists(filepath)\<close>;
  \<^item> \<open>At_except_remove\<close>: line 149, before \<open>os.remove(filepath)\<close>;
  \<^item> \<open>Done\<close>: the handler was left, with a response or by an exception.
\<close>

datatype pc =
    At_start
  | At_exists_folder file_storage
  | At_makedirs file_storage
  | At_save file_storage
  | At_exists_file file_storage
  | At_transcribe file_storage
  | In_transcribe file_storage "exn + transcription"
  | At_remove file_storage transcription
  | In_except file_storage exn
  | At_except_remove file_storage exn
  | Done "exn + response"

text \<open>
  What the threads share: the world, and for every file of the storage the request
  that wrote it (\<open>sh_writer\<close>, kept for the statement of ownership only; no step reads
  it). Saving a file makes the saving request its writer; removing it leaves none.
\<close>

record shared =
  sh_world :: world
  sh_writer :: "string \<rightharpoonup> nat"

text \<open>An exception raised inside the \<open>try\<close> statement: caught at line 141, or not.\<close>

definition raise_in_try :: "file_storage \<Rightarrow> exn \<Rightarrow> pc" where
  "raise_in_try file x = (if is_Exception x then In_except file x else Done (Inl x))"

text \<open>One step of request \<open>i\<close>.\<close>

fun thread_step :: "globals \<Rightarrow> nat \<Rightarrow> env \<Rightarrow> request \<Rightarrow> shared \<Rightarrow> pc \<Rightarrow> pc \<times> shared" where
  "thread_step g i e req s At_start =
     (case files req ''file'' of
        None \<Rightarrow> (Done (Inr (JObj [(''error'', JStr ''No file provided'')], 400)), s)
      | Some file \<Rightarrow>
          if filename file = []
          then (Done (Inr (JObj [(''error'', JStr ''No file selected'')], 400)), s)
          else if \<not> allowed_file (str_case e) (filename file)
          then (Done (Inr (JObj [(''error'', JStr ''File type not allowed'')], 400)), s)
          else (At_exists_folder file, s))"
| "thread_step g i e req s (At_exists_folder file) =
     (if \<not> os_path_exists (sh_world s) UPLOAD_FOLDER then (At_makedirs file, s)
      else (At_save file, s))"
| "thread_step g i e req s (At_makedirs file) =
     (case os_makedirs (sh_world s) UPLOAD_FOLDER of
        Inl x \<Rightarrow> (raise_in_try file x, s)
      | Inr w \<Rightarrow> (At_save file, s\<lparr>sh_world := w\<rparr>))"
| "thread_step g i e req s (At_save file) =
     (case file_save (sh_world s) (stream file) (upload_path e file) of
        Inl x \<Rightarrow> (raise_in_try file x, s)
      | Inr w \<Rightarrow>
          (At_exists_file file,
           s\<lparr>sh_world := w, sh_writer := (sh_writer s)(upload_path e file \<mapsto> i)\<rparr>))"
| "thread_step g i e req s (At_exists_file file) =
     (if os_path_exists (sh_world s) (upload_path e file) then (At_transcribe file, s)
      else (raise_in_try file (Raise FileNotFoundError (NOT_SAVED @ upload_path e file)), s))"
| "thread_step g i e req s (At_transcribe file) =
     (In_transcribe file (whisper_transcribe e (model g) (sh_world s) (upload_path e file)),
      s\<lparr>sh_world := (sh_world s)
           \<lparr>engine_calls := engine_calls (sh_world s) @ [upload_path e file]\<rparr>\<rparr>)"
| "thread_step g i e req s (In_transcribe file r) =
     (case r of
        Inl x \<Rightarrow> (raise_in_try file x, s)
      | Inr result \<Rightarrow> (At_remove file result, s))"
| "thread_step g i e req s (At_remove file result) =
     (case os_remove (sh_world s) (upload_path e file) of
        Inl x \<Rightarrow> (raise_in_try file x, s)
      | Inr w \<Rightarrow>
          (Done (Inr (success_body e result, 200)),
           s\<lparr>sh_world := w, sh_writer := (sh_writer s)(upload_path e file := None)\<rparr>))"
| "thread_step g i e req s (In_except file x) =
     (if os_path_exists (sh_world s) (upload_path e file) then (At_except_remove file x, s)
      else (Done (Inr (error_body e x, 500)), s))"
| "thread_step g i e req s (At_except_remove file x) =
     (case os_remove (sh_world s) (upload_path e file) of
        Inl y \<Rightarrow> (Done (Inr (error_body e x, 500)), s)
      | Inr w \<Rightarrow>
          (Done (Inr (error_body e x, 500)),
           s\<lparr>sh_world := w, sh_writer := (sh_writer s)(upload_path e file := None)\<rparr>))"
| "thread_step g i e req s (Done r) = (Done r, s)"

text \<open>The server: what is shared, and one thread for each request being handled.\<close>

record thread =
  th_env :: env
  th_req :: request
  th_pc :: pc

record server =
  shared_state :: shared
  threads :: "thread list"

text \<open>Thread \<open>i\<close> takes its next step; a schedule is the list of the threads that step.\<close>

definition conc_step :: "globals \<Rightarrow> server \<Rightarrow> nat \<Rightarrow> server" where
  "conc_step g sv i =
     (if i < length (threads sv)
      then
        (let t = threads sv ! i in
         case thread_step g i (th_env t) (th_req t) (shared_state sv) (th_pc t) of
           (p, s) \<Rightarrow> sv\<lparr>shared_state := s, threads := (threads sv)[i := t\<lparr>th_pc := p\<rparr>]\<rparr>)
      else sv)"

definition conc_run :: "globals \<Rightarrow> server \<Rightarrow> nat list \<Rightarrow> server" where
  "conc_run g sv sched = foldl (conc_step g) sv sched"

text \<open>The requests have just arrived; no file of the storage was written by one of them.\<close>

definition start_server :: "world \<Rightarrow> (env \<times> request) list \<Rightarrow> server" where
  "start_server w reqs =
     \<lparr>shared_state = \<lparr>sh_world = w, sh_writer = Map.empty\<rparr>,
      threads = map (\<lambda>(e, req). \<lparr>th_env = e, th_req = req, th_pc = At_start\<rparr>) reqs\<rparr>"

text \<open>The control state of the first model that a point of the handler lies in.\<close>

fun pc_phase :: "pc \<Rightarrow> phase" where
  "pc_phase At_start = Received"
| "pc_phase (At_exists_folder file) = Validated"
| "pc_phase (At_makedirs file) = Validated"
| "pc_phase (At_save file) = Validated"
| "pc_phase (At_exists_file file) = Validated"
| "pc_phase (At_transcribe file) = Stored"
| "pc_phase (In_transcribe file r) = Transcribing"
| "pc_phase (At_remove file result) = Completed"
| "pc_phase (In_except file x) = Failed"
| "pc_phase (At_except_remove file x) = Failed"
| "pc_phase (Done (Inr resp)) = Responded (snd resp)"
| "pc_phase (Done (Inl x)) = Aborted"

section \<open>What holds at every moment of a concurrent run\<close>

text \<open>
  The file a point of the handler carries; whether the request may have a file of its
  own in the storage at that point (from the return of \<open>file.save\<close> until the handler
  is left with a response); the path a request stores its upload at.
\<close>

fun pc_file :: "pc \<Rightarrow> file_storage option" where
  "pc_file At_start = None"
| "pc_file (At_exists_folder file) = Some file"
| "pc_file (At_makedirs file) = Some file"
| "pc_file (At_save file) = Some file"
| "pc_file (At_exists_file file) = Some file"
| "pc_file (At_transcribe file) = Some file"
| "pc_file (In_transcribe file r) = Some file"
| "pc_file (At_remove file result) = Some file"
| "pc_file (In_except file x) = Some file"
| "pc_file (At_except_remove file x) = Some file"
| "pc_file (Done r) = None"

fun holding :: "pc \<Rightarrow> bool" where
  "holding At_start = False"
| "holding (At_exists_folder file) = False"
| "holding (At_makedirs file) = False"
| "holding (At_save file) = False"
| "holding (At_exists_file file) = True"
| "holding (At_transcribe file) = True"
| "holding (In_transcribe file r) = True"
| "holding (At_remove file result) = True"
| "holding (In_except file x) = True"
| "holding (At_except_remove file x) = True"
| "holding (Done (Inl x)) = True"
| "holding (Done (Inr resp)) = False"

definition request_path :: "env \<Rightarrow> request \<Rightarrow> string option" where
  "request_path e req =
     (case files req ''file'' of None \<Rightarrow> None | Some file \<Rightarrow> Some (upload_path e file))"

text \<open>
  The file a thread carries is the one of its request. Every file with a writer exists,
  is a regular file at the path of its writer's request, and that request is at a point
  where it may have one, unless the operating system refuses the removal of the path.
  A file without a writer is as it was at the start.
\<close>

definition files_known :: "server \<Rightarrow> bool" where
  "files_known sv =
     (\<forall>j file. j < length (threads sv) \<and> pc_file (th_pc (threads sv ! j)) = Some file \<longrightarrow>
        files (th_req (threads sv ! j)) ''file'' = Some file)"

definition writers_hold :: "world \<Rightarrow> server \<Rightarrow> bool" where
  "writers_hold w0 sv =
     (\<forall>p j. sh_writer (shared_state sv) p = Some j \<longrightarrow>
        fs_files (sh_world (shared_state sv)) p \<noteq> None \<and>
        p \<notin> fs_dirs (sh_world (shared_state sv)) \<and>
        j < length (threads sv) \<and>
        request_path (th_env (threads sv ! j)) (th_req (threads sv ! j)) = Some p \<and>
        (holding (th_pc (threads sv ! j)) \<or> p \<in> remove_denied w0))"

definition unwritten_kept :: "world \<Rightarrow> server \<Rightarrow> bool" where
  "unwritten_kept w0 sv =
     (\<forall>p. sh_writer (shared_state sv) p = None \<longrightarrow>
        fs_files (sh_world (shared_state sv)) p = None \<or>
        fs_files (sh_world (shared_state sv)) p = fs_files w0 p)"

definition inv :: "world \<Rightarrow> server \<Rightarrow> bool" where
  "inv w0 sv =
     (remove_denied (sh_world (shared_state sv)) = remove_denied w0 \<and>
      files_known sv \<and> writers_hold w0 sv \<and> unwritten_kept w0 sv)"

section \<open>A request stepping alone\<close>

text \<open>
  \<open>n\<close> steps of one request; what the handler returns when an exception \<open>x\<close> is raised
  inside the \<open>try\<close> statement; what it returns once the upload is stored; and that
  \<open>n\<close> steps from a point leave the handler with a given result and world.
\<close>

primrec run_thread ::
  "globals \<Rightarrow> nat \<Rightarrow> env \<Rightarrow> request \<Rightarrow> nat \<Rightarrow> pc \<times> shared \<Rightarrow> pc \<times> shared" where
  "run_thread g i e req 0 x = x"
| "run_thread g i e req (Suc n) x = run_thread g i e req n (thread_step g i e req (snd x) (fst x))"

definition caught :: "env \<Rightarrow> file_storage \<Rightarrow> exn \<Rightarrow> world \<Rightarrow> (exn + response) \<times> world" where
  "caught e file x w =
     (if is_Exception x
      then (case transcribe_except e file x w of (resp, w') \<Rightarrow> (Inr resp, w'))
      else (Inl x, w))"

definition after_store ::
  "globals \<Rightarrow> env \<Rightarrow> file_storage \<Rightarrow> world \<Rightarrow> (exn + response) \<times> world" where
  "after_store g e file w =
     (let w2 = w\<lparr>engine_calls := engine_calls w @ [upload_path e file]\<rparr> in
      case whisper_transcribe e (model g) w (upload_path e file) of
        Inl x \<Rightarrow> caught e file x w2
      | Inr result \<Rightarrow>
          (case os_remove w2 (upload_path e file) of
             Inl x \<Rightarrow> caught e file x w2
           | Inr w3 \<Rightarrow> (Inr (success_body e result, 200), w3)))"

definition ends_in ::
  "globals \<Rightarrow> nat \<Rightarrow> env \<Rightarrow> request \<Rightarrow> nat \<Rightarrow> pc \<Rightarrow> shared \<Rightarrow> (exn + response) \<times> world \<Rightarrow> bool" where
  "ends_in g i e req n p s out =
     (fst (run_thread g i e req n (p, s)) = Done (fst out) \<and>
      sh_world (snd (run_thread g i e req n (p, s))) = snd out)"

section \<open>A concrete environment\<close>

text \<open>
  A fragment of the case mapping of the Unicode database, right at the code points
  named here and the identity elsewhere: the lower-case forms of U+212A KELVIN SIGN
  (\<open>k\<close>) and of U+0130 (\<open>i\<close> and U+0307), and the upper-case form \<open>FL\<close> of the
  ligature U+FB02. The ligature has no other lower-case form than itself.
\<close>

definition sample_case_map :: case_map where
  "sample_case_map =
     \<lparr>lower_nonascii =
        (\<lambda>before c after. if c = 8490 then [107] else if c = 304 then [105, 775] else [c]),
      upper_nonascii = (\<lambda>c. if c = 64258 then ustr ''FL'' else [c])\<rparr>"

text \<open>
  werkzeug's \<open>secure_filename\<close> on POSIX, for file names written in ASCII (characters
  outside ASCII are dropped here, where werkzeug first decomposes them): path separators
  become spaces, runs of white space become one underscore, only letters, digits and
  \<open>_ . -\<close> are kept, and dots and underscores are stripped from both ends.
\<close>

definition is_space :: "char \<Rightarrow> bool" where
  "is_space c = ((of_char c :: nat) \<in> {9, 10, 11, 12, 13, 28, 29, 30, 31, 32})"

fun py_split :: "string \<Rightarrow> string \<Rightarrow> string list" where
  "py_split cur [] = (if cur = [] then [] else [rev cur])"
| "py_split cur (c # cs) =
     (if is_space c then (if cur = [] then py_split [] cs else rev cur # py_split [] cs)
      else py_split (c # cur) cs)"

fun py_join :: "string \<Rightarrow> string list \<Rightarrow> string" where
  "py_join sep [] = []"
| "py_join sep [x] = x"
| "py_join sep (x # y # ys) = x @ sep @ py_join sep (y # ys)"

definition py_strip :: "string \<Rightarrow> string \<Rightarrow> string" where
  "py_strip cs s = rev (dropWhile (\<lambda>c. c \<in> set cs) (rev (dropWhile (\<lambda>c. c \<in> set cs) s)))"

definition werkzeug_secure_filename :: "ustring \<Rightarrow> string" where
  "werkzeug_secure_filename s =
     (let ascii = map char_of (filter (\<lambda>c. c < 128) s);
          spaced = map (\<lambda>c. if c = CHR ''/'' then CHR '' '' else c) ascii;
          joined = py_join ''_'' (py_split [] spaced);
          kept = filter (\<lambda>c. c \<in> set
            ''ABCDEFGHIJKLMNOPQRSTUVWXYZabcdefghijklmnopqrstuvwxyz0123456789_.-'') joined
      in py_strip ''._'' kept)"

text \<open>
  A stub engine: it reads the file at the path it is given, raises when the file is
  missing or empty, and otherwise returns the contents as the text.
\<close>

definition stub_transcribe :: "engine_handle \<Rightarrow> world \<Rightarrow> string \<Rightarrow> exn + transcription" where
  "stub_transcribe h w p =
     (case fs_files w p of
        None \<Rightarrow> Inl (Raise FileNotFoundError p)
      | Some content \<Rightarrow>
          if content = [] then Inl (Raise EngineFault ''no audio'')
          else Inr \<lparr>result_text = content, result_segments = JList [], result_language = ''en''\<rparr>)"

definition stub_env :: env where
  "stub_env =
     \<lparr>str_case = sample_case_map,
      secure_filename = werkzeug_secure_filename,
      whisper_transcribe = stub_transcribe,
      time_time = real,
      format_exc = exn_str,
      now_isoformat = ''2024-01-01T00:00:00'',
      format_2f = (\<lambda>x. ''0.00'')\<rparr>"

text \<open>The same, with an engine that ends in \<open>sys.exit(1)\<close>.\<close>

definition exiting_env :: env where
  "exiting_env = stub_env\<lparr>whisper_transcribe := (\<lambda>h w p. Inl (Raise SystemExit ''1''))\<rparr>"

text \<open>A machine without a GPU, started at time 0 with the model loaded at time 1.\<close>

definition cpu_globals :: globals where
  "cpu_globals = startup False 0 1"

definition no_gpu :: cuda where
  "no_gpu =
     \<lparr>is_available = False, device_count = 0, get_device_name = [],
      memory_allocated = 0, memory_reserved = 0\<rparr>"

text \<open>The upload folder exists and is empty; nothing is refused.\<close>

definition fresh_world :: world where
  "fresh_world =
     \<lparr>fs_files = Map.empty, fs_dirs = {''uploads''}, write_denied = {}, remove_denied = {},
      engine_calls = []\<rparr>"

text \<open>The same, but the operating system refuses to remove \<open>uploads/a.wav\<close>.\<close>

definition locked_world :: world where
  "locked_world = fresh_world\<lparr>remove_denied := {''uploads/a.wav''}\<rparr>"

text \<open>An upload named in ASCII, and a request with one file part (the multipart framing is
  not counted in its length).\<close>

definition audio :: "string \<Rightarrow> string \<Rightarrow> file_storage" where
  "audio name content = \<lparr>filename = ustr name, content_type = ''audio/wav'', stream = content\<rparr>"

definition upload :: "string \<Rightarrow> string \<Rightarrow> request" where
  "upload name content =
     \<lparr>files = [''file'' \<mapsto> audio name content], content_length = length content\<rparr>"


section \<open>The filename check\<close>

lemma ascii_lower_folded: "ascii_lower c = folded c"
proof (cases "65 \<le> c \<and> c \<le> 90")
  case True
  then have "c \<in> set (ustr ''ABCDEFGHIJKLMNOPQRSTUVWXYZ'')"
    by (simp add: ustr_def) arith
  then show ?thesis
    by (auto simp: ascii_lower_def folded_def ustr_def)
next
  case False
  then show ?thesis
    by (auto simp: ascii_lower_def folded_def ustr_def)
qed

lemma lower_from_ascii:
  "\<forall>c\<in>set s. c < 128 \<Longrightarrow> lower_from u before s = map ascii_lower s"
  by (induction s arbitrary: before) simp_all

lemma lower_ascii: "\<forall>c\<in>set s. c < 128 \<Longrightarrow> lower u s = map folded s"
  by (simp add: lower_def lower_from_ascii ascii_lower_folded)

lemma dot_lower_from: "46 \<in> set s \<Longrightarrow> 46 \<in> set (lower_from u before s)"
  by (induction s arbitrary: before) (auto simp: ascii_lower_def)

lemma allowed_no_dot: "lower u e \<in> ALLOWED_EXTENSIONS \<Longrightarrow> 46 \<notin> set e"
proof
  assume a: "lower u e \<in> ALLOWED_EXTENSIONS" and d: "46 \<in> set e"
  from d have "46 \<in> set (lower u e)" by (simp add: lower_def dot_lower_from)
  with a show False by (auto simp: ALLOWED_EXTENSIONS_def ustr_def)
qed

lemma lower_nonempty: "lower u e \<in> ALLOWED_EXTENSIONS \<Longrightarrow> e \<noteq> []"
  by (cases e) (simp_all add: ALLOWED_EXTENSIONS_def lower_def ustr_def)

lemma rsplit1_append: "sep \<notin> set e \<Longrightarrow> rsplit1 sep (b @ sep # e) = [b, e]"
proof -
  assume a: "sep \<notin> set e"
  then have t: "takeWhile (\<lambda>c. c \<noteq> sep) (rev e) = rev e"
    by (auto simp: takeWhile_eq_all_conv)
  from a have d: "dropWhile (\<lambda>c. c \<noteq> sep) (rev e) = []"
    by auto
  show ?thesis
    by (simp add: rsplit1_def takeWhile_tail dropWhile_append t d a)
qed

text \<open>The index \<open>[1]\<close> of \<open>allowed_file\<close> never raises where it is evaluated.\<close>

lemma rsplit1_index: "sep \<in> set s \<Longrightarrow> \<exists>ext. py_index (rsplit1 sep s) 1 = Some ext"
  by (simp add: rsplit1_def py_index_def)

lemma split_last: "sep \<in> set s \<Longrightarrow> \<exists>b e. s = b @ sep # e \<and> sep \<notin> set e"
  by (metis split_list_last)

lemma allowed_file_split:
  "46 \<notin> set e \<Longrightarrow> allowed_file u (b @ 46 # e) = (lower u e \<in> ALLOWED_EXTENSIONS)"
  by (simp add: allowed_file_def rsplit1_append py_index_def)

lemma allowed_file_iff:
  "allowed_file u f \<longleftrightarrow>
     (\<exists>b e. f = b @ 46 # e \<and> e \<noteq> [] \<and> lower u e \<in> ALLOWED_EXTENSIONS)"
proof
  assume af: "allowed_file u f"
  then have "46 \<in> set f" by (simp add: allowed_file_def)
  from split_last [OF this] obtain b e where f: "f = b @ 46 # e" and e: "46 \<notin> set e"
    by auto
  from af have l: "lower u e \<in> ALLOWED_EXTENSIONS"
    unfolding f by (simp only: allowed_file_split [OF e])
  from f l lower_nonempty [OF l]
  show "\<exists>b e. f = b @ 46 # e \<and> e \<noteq> [] \<and> lower u e \<in> ALLOWED_EXTENSIONS"
    by (intro exI conjI)
next
  assume "\<exists>b e. f = b @ 46 # e \<and> e \<noteq> [] \<and> lower u e \<in> ALLOWED_EXTENSIONS"
  then obtain b e where f: "f = b @ 46 # e" and l: "lower u e \<in> ALLOWED_EXTENSIONS"
    by auto
  from l have e: "46 \<notin> set e" by (rule allowed_no_dot)
  from l show "allowed_file u f"
    unfolding f by (simp only: allowed_file_split [OF e])
qed

text \<open>A string with a code point outside ASCII has no lower-case form in the set.\<close>

lemma lower_from_marked:
  assumes "lower_marks_nonascii u" and "\<exists>c\<in>set s. 128 \<le> c"
  shows "\<exists>x\<in>set (lower_from u before s). 128 \<le> x \<or> x = 107"
  using assms(2)
proof (induction s arbitrary: before)
  case Nil
  then show ?case by simp
next
  case (Cons c s)
  show ?case
  proof (cases "128 \<le> c")
    case True
    with assms(1) have "\<exists>x\<in>set (lower_nonascii u before c s). 128 \<le> x \<or> x = 107"
      by (simp add: lower_marks_nonascii_def)
    with True show ?thesis by auto
  next
    case False
    with Cons.prems have "\<exists>c\<in>set s. 128 \<le> c" by auto
    from Cons.IH [OF this, of "before @ [c]"] show ?thesis by auto
  qed
qed

lemma nonascii_refused:
  assumes "lower_marks_nonascii u" and "\<exists>c\<in>set s. 128 \<le> c"
  shows "lower u s \<notin> ALLOWED_EXTENSIONS"
proof
  assume a: "lower u s \<in> ALLOWED_EXTENSIONS"
  from lower_from_marked [OF assms, of "[]"]
  obtain x where "x \<in> set (lower u s)" and "128 \<le> x \<or> x = 107"
    by (auto simp: lower_def)
  with a show False
    by (auto simp: ALLOWED_EXTENSIONS_def ustr_def)
qed

lemma same_letter_cases:
  assumes "same_letter c d"
  shows "ascii_lower c = ascii_lower d" and "c < 128 \<longleftrightarrow> d < 128" and "c = 46 \<longleftrightarrow> d = 46"
  using assms by (auto simp: same_letter_def ustr_def ascii_lower_def)

lemma same_up_to_case_facts:
  assumes "same_up_to_case s t"
  shows "map ascii_lower s = map ascii_lower t"
    and "(\<forall>c\<in>set s. c < 128) \<longleftrightarrow> (\<forall>c\<in>set t. c < 128)"
    and "46 \<in> set s \<longleftrightarrow> 46 \<in> set t"
proof -
  from assms have l: "list_all2 same_letter s t" by (simp add: same_up_to_case_def)
  from l show "map ascii_lower s = map ascii_lower t"
    by (induction rule: list_all2_induct) (simp_all add: same_letter_cases(1))
  from l show "(\<forall>c\<in>set s. c < 128) \<longleftrightarrow> (\<forall>c\<in>set t. c < 128)"
    by (induction rule: list_all2_induct) (simp_all add: same_letter_cases(2))
  from l show "46 \<in> set s \<longleftrightarrow> 46 \<in> set t"
    by (induction rule: list_all2_induct) (use same_letter_cases(3) in auto)
qed

lemma allowed_file_case:
  assumes u: "lower_marks_nonascii u" and d: "46 \<notin> set ext" and s: "same_up_to_case ext ext'"
  shows "allowed_file u (base @ 46 # ext') = allowed_file u (base @ 46 # ext)"
proof -
  from d same_up_to_case_facts(3) [OF s] have d': "46 \<notin> set ext'" by simp
  have "(lower u ext' \<in> ALLOWED_EXTENSIONS) = (lower u ext \<in> ALLOWED_EXTENSIONS)"
  proof (cases "\<forall>c\<in>set ext. c < 128")
    case True
    with same_up_to_case_facts(2) [OF s] have "\<forall>c\<in>set ext'. c < 128" by simp
    with True same_up_to_case_facts(1) [OF s] show ?thesis
      by (simp add: lower_def lower_from_ascii)
  next
    case False
    with same_up_to_case_facts(2) [OF s] have "\<not> (\<forall>c\<in>set ext'. c < 128)" by simp
    with False have "\<exists>c\<in>set ext. 128 \<le> c" and "\<exists>c\<in>set ext'. 128 \<le> c"
      by (auto simp: not_less)
    with u show ?thesis by (simp add: nonascii_refused)
  qed
  with d d' show ?thesis by (simp add: allowed_file_split)
qed


text \<open>
  C5, as amended. \<open>allowed_file\<close> accepts a filename exactly when it has the form
  \<open>base.ext\<close> with \<open>ext\<close> not empty and the lower-case form of \<open>ext\<close> among
  wav, mp3, m4a, flac, ogg. On ASCII the lower-case form is the table \<open>folded\<close>:
  \<open>A\<close>-\<open>Z\<close> go to \<open>a\<close>-\<open>z\<close> and nothing else changes. The check ignores the case of the
  ASCII letters: two filenames whose extensions (the part after the last dot) are the
  same up to the case of the letters \<open>A\<close>-\<open>Z\<close>, \<open>a\<close>-\<open>z\<close> get the same answer.
\<close>

theorem allowed_file_spec:
  "(allowed_file u f \<longleftrightarrow>
      (\<exists>b e. f = b @ ustr ''.'' @ e \<and> e \<noteq> [] \<and> lower u e \<in> ALLOWED_EXTENSIONS)) \<and>
   ((\<forall>c\<in>set s. c < 128) \<longrightarrow> lower u s = map folded s) \<and>
   (lower_marks_nonascii u \<and> 46 \<notin> set ext \<and> same_up_to_case ext ext' \<longrightarrow>
      allowed_file u (base @ ustr ''.'' @ ext') = allowed_file u (base @ ustr ''.'' @ ext))"
  using allowed_file_iff [of u f] lower_ascii [of s u] allowed_file_case [of u ext ext' base]
  by (simp add: ustr_def)

text \<open>The fragment of the case mapping has the property of the whole.\<close>

lemma sample_marks_nonascii: "lower_marks_nonascii sample_case_map"
  by (simp add: lower_marks_nonascii_def sample_case_map_def)

lemmas filename_defs =
  allowed_file_def rsplit1_def py_index_def lower_def ascii_lower_def ALLOWED_EXTENSIONS_def
  ustr_def

text \<open>C5, as amended, at \<open>song.Mp3\<close> and \<open>song.mp3\<close>.\<close>

theorem allowed_file_spec_witness:
  "list_all (\<lambda>c. c < 128) (ustr ''Mp3'') \<and>
   lower sample_case_map (ustr ''Mp3'') = ustr ''mp3'' \<and>
   lower_marks_nonascii sample_case_map \<and> 46 \<notin> set (ustr ''mp3'') \<and>
   same_up_to_case (ustr ''mp3'') (ustr ''Mp3'') \<and>
   allowed_file sample_case_map (ustr ''song'' @ ustr ''.'' @ ustr ''Mp3'') \<and>
   allowed_file sample_case_map (ustr ''song.mp3'')"
proof -
  have a: "\<forall>c\<in>set (ustr ''Mp3''). c < 128"
    by (simp add: ustr_def)
  have h: "lower_marks_nonascii sample_case_map \<and> 46 \<notin> set (ustr ''mp3'') \<and>
           same_up_to_case (ustr ''mp3'') (ustr ''Mp3'')"
    by (simp add: sample_marks_nonascii) (simp add: same_up_to_case_def same_letter_def ustr_def)
  have "ustr ''song.mp3'' = ustr ''song'' @ ustr ''.'' @ ustr ''mp3'' \<and> ustr ''mp3'' \<noteq> [] \<and>
        lower sample_case_map (ustr ''mp3'') \<in> ALLOWED_EXTENSIONS"
    by (simp add: filename_defs)
  then have e: "\<exists>b e. ustr ''song.mp3'' = b @ ustr ''.'' @ e \<and> e \<noteq> [] \<and>
                  lower sample_case_map e \<in> ALLOWED_EXTENSIONS"
    by (intro exI)
  have f: "map folded (ustr ''Mp3'') = ustr ''mp3''"
    by (simp add: folded_def ustr_def)
  from allowed_file_spec
         [of sample_case_map "ustr ''song.mp3''" "ustr ''Mp3''" "ustr ''mp3''" "ustr ''Mp3''"
            "ustr ''song''"] a h e f
  show ?thesis by (simp add: ustr_def)
qed

text \<open>
  C5 as the spec states it fails: a change of case that rewrites a character outside
  ASCII changes the answer. The extension U+FB02 \<open>ac\<close> (the ligature fl, then \<open>ac\<close>) is
  refused; its upper-case form \<open>FLAC\<close> is accepted.
\<close>

theorem ligature_case_counterexample:
  "upper sample_case_map ([64258] @ ustr ''ac'') = ustr ''FLAC'' \<and>
   \<not> allowed_file sample_case_map (ustr ''a.'' @ [64258] @ ustr ''ac'') \<and>
   allowed_file sample_case_map (ustr ''a.'' @ ustr ''FLAC'')"
  by (simp add: upper_def ascii_upper_def sample_case_map_def filename_defs)

section \<open>The transcription handler\<close>

text \<open>After a successful store the file is there, a regular file, with the upload's bytes.\<close>

lemma save_upload_ok:
  assumes "save_upload e file w = (Inr u, w1)"
  shows "fs_files w1 (upload_path e file) = Some (stream file) \<and>
         upload_path e file \<notin> fs_dirs w1 \<and>
         remove_denied w1 = remove_denied w \<and>
         engine_calls w1 = engine_calls w"
  using assms
  by (auto simp: save_upload_def Let_def os_makedirs_def file_save_def
      split: if_splits sum.splits)

text \<open>A request that passes the three checks enters the \<open>try\<close> statement.\<close>

lemma transcribe_audio_valid:
  assumes "files req ''file'' = Some file" "filename file \<noteq> []"
    "allowed_file (str_case e) (filename file)"
  shows "transcribe_audio g e req w =
     (case transcribe_try g e file w of
        (Inr body, w1) \<Rightarrow> (Inr (body, 200), w1)
      | (Inl x, w1) \<Rightarrow>
          if is_Exception x
          then (case transcribe_except e file x w1 of (resp, w2) \<Rightarrow> (Inr resp, w2))
          else (Inl x, w1))"
  using assms by (simp add: transcribe_audio_def)

text \<open>
  C4. A request that fails validation (no part named \<open>file\<close>, an empty filename, or a
  filename \<open>allowed_file\<close> rejects) is answered with status 400, and the world is left
  exactly as it was: no file is written and the engine is not invoked.
\<close>

theorem validation_failure_400:
  assumes "files req ''file'' = None \<or>
           (\<exists>file. files req ''file'' = Some file \<and>
              (filename file = [] \<or> \<not> allowed_file (str_case e) (filename file)))"
  shows "(\<exists>body. fst (transcribe_audio g e req w) = Inr (body, 400)) \<and>
         snd (transcribe_audio g e req w) = w \<and>
         fs_files (snd (transcribe_audio g e req w)) = fs_files w \<and>
         engine_calls (snd (transcribe_audio g e req w)) = engine_calls w"
  using assms by (auto simp: transcribe_audio_def)

text \<open>C4 at a concrete request: \<open>notes.txt\<close> is refused and nothing changes.\<close>

theorem validation_failure_400_witness:
  "(\<exists>file. files (upload ''notes.txt'' ''hello'') ''file'' = Some file \<and>
      (filename file = [] \<or> \<not> allowed_file (str_case stub_env) (filename file))) \<and>
   fst (transcribe_audio cpu_globals stub_env (upload ''notes.txt'' ''hello'') fresh_world) =
     Inr (JObj [(''error'', JStr ''File type not allowed'')], 400) \<and>
   snd (transcribe_audio cpu_globals stub_env (upload ''notes.txt'' ''hello'') fresh_world) = fresh_world"
proof -
  have n: "\<not> allowed_file (str_case stub_env) (ustr ''notes.txt'')"
    by (simp add: stub_env_def filename_defs)
  then have h: "\<exists>file. files (upload ''notes.txt'' ''hello'') ''file'' = Some file \<and>
      (filename file = [] \<or> \<not> allowed_file (str_case stub_env) (filename file))"
    by (simp add: upload_def audio_def)
  then have h': "files (upload ''notes.txt'' ''hello'') ''file'' = None \<or>
     (\<exists>file. files (upload ''notes.txt'' ''hello'') ''file'' = Some file \<and>
      (filename file = [] \<or> \<not> allowed_file (str_case stub_env) (filename file)))" ..
  have b: "fst (transcribe_audio cpu_globals stub_env (upload ''notes.txt'' ''hello'') fresh_world) =
     Inr (JObj [(''error'', JStr ''File type not allowed'')], 400)"
    using n by (simp add: transcribe_audio_def upload_def audio_def) (simp add: ustr_def)
  from validation_failure_400 [OF h', of cpu_globals fresh_world] h b
  show ?thesis by simp
qed

lemma transcribe_try_stored:
  assumes "save_upload e file w = (Inr u, w1)"
  shows "transcribe_try g e file w =
     (let filepath = upload_path e file;
          w2 = w1\<lparr>engine_calls := engine_calls w1 @ [filepath]\<rparr> in
      case whisper_transcribe e (model g) w1 filepath of
        Inl x \<Rightarrow> (Inl x, w2)
      | Inr result \<Rightarrow>
          (case os_remove w2 filepath of
             Inl x \<Rightarrow> (Inl x, w2)
           | Inr w3 \<Rightarrow> (Inr (success_body e result), w3)))"
  using assms by (simp add: transcribe_try_def Let_def split: sum.splits)

lemma transcribe_try_engine_fault:
  assumes "save_upload e file w = (Inr u, w1)"
    and "whisper_transcribe e (model g) w1 (upload_path e file) = Inl x"
  shows "transcribe_try g e file w =
           (Inl x, w1\<lparr>engine_calls := engine_calls w1 @ [upload_path e file]\<rparr>)"
  using assms by (simp add: transcribe_try_stored Let_def)

text \<open>
  C6, as amended. When the upload passed validation and was stored, and the engine call
  raises an exception \<open>x\<close>: if \<open>x\<close> is an instance of \<open>Exception\<close>, the \<open>except\<close>
  clause catches it and the handler returns a response with status 500 and a body with
  the members \<open>error\<close> (the text of \<open>x\<close>) and \<open>traceback\<close>, and no member \<open>text\<close>; if
  it is not, the exception leaves the handler, which returns no response and leaves the
  stored file where it is. Either way the engine was invoked once, on the stored path.
\<close>

theorem engine_fault_500:
  assumes "files req ''file'' = Some file" and "filename file \<noteq> []"
    and "allowed_file (str_case e) (filename file)"
    and "save_upload e file w = (Inr u, w1)"
    and "whisper_transcribe e (model g) w1 (upload_path e file) = Inl x"
  shows "(is_Exception x \<longrightarrow>
            fst (transcribe_audio g e req w) =
              Inr (JObj [(''error'', JStr (exn_str x)), (''traceback'', JStr (format_exc e x))], 500) \<and>
            json_get (JObj [(''error'', JStr (exn_str x)), (''traceback'', JStr (format_exc e x))])
              ''text'' = None) \<and>
         (\<not> is_Exception x \<longrightarrow>
            fst (transcribe_audio g e req w) = Inl x \<and>
            fs_files (snd (transcribe_audio g e req w)) (upload_path e file) = Some (stream file)) \<and>
         engine_calls (snd (transcribe_audio g e req w)) = engine_calls w @ [upload_path e file]"
proof -
  let ?p = "upload_path e file"
  let ?w2 = "w1\<lparr>engine_calls := engine_calls w1 @ [?p]\<rparr>"
  have t: "transcribe_audio g e req w =
     (if is_Exception x
      then (case transcribe_except e file x ?w2 of (resp, w2) \<Rightarrow> (Inr resp, w2))
      else (Inl x, ?w2))"
    using assms by (simp add: transcribe_audio_valid transcribe_try_engine_fault)
  have c: "engine_calls w1 = engine_calls w" "fs_files w1 ?p = Some (stream file)"
    using save_upload_ok [OF assms(4)] by simp_all
  show ?thesis
    unfolding t using c
    by (simp add: transcribe_except_def error_body_def Let_def json_get_def os_remove_def
        split: sum.splits)
qed

text \<open>Evaluation of the handlers in the concrete environment.\<close>

lemma allowed_a_wav: "allowed_file sample_case_map (ustr ''a.wav'')"
  by (simp add: filename_defs)

lemma secure_a_wav: "werkzeug_secure_filename (ustr ''a.wav'') = ''a.wav''"
  by (simp add: werkzeug_secure_filename_def is_space_def py_strip_def ustr_def char_of_eq_iff)

lemma stub_env_sel:
  "str_case stub_env = sample_case_map"
  "secure_filename stub_env = werkzeug_secure_filename"
  "whisper_transcribe stub_env = stub_transcribe"
  "format_exc stub_env = exn_str"
  "str_case exiting_env = sample_case_map"
  "secure_filename exiting_env = werkzeug_secure_filename"
  "whisper_transcribe exiting_env = (\<lambda>h w p. Inl (Raise SystemExit ''1''))"
  "format_exc exiting_env = exn_str"
  by (simp_all add: stub_env_def exiting_env_def)

lemma path_a_wav:
  "upload_path stub_env (audio ''a.wav'' c) = ''uploads/a.wav''"
  "upload_path exiting_env (audio ''a.wav'' c) = ''uploads/a.wav''"
  by (simp_all add: upload_path_def os_path_join_def UPLOAD_FOLDER_def stub_env_sel secure_a_wav
      audio_def)

lemma save_a_wav:
  "save_upload stub_env (audio ''a.wav'' c) fresh_world =
     (Inr (), fresh_world\<lparr>fs_files := [''uploads/a.wav'' \<mapsto> c]\<rparr>)"
  "save_upload exiting_env (audio ''a.wav'' c) fresh_world =
     (Inr (), fresh_world\<lparr>fs_files := [''uploads/a.wav'' \<mapsto> c]\<rparr>)"
  by (simp_all add: save_upload_def path_a_wav Let_def os_path_exists_def file_save_def
      parent_dir_def dir_exists_def UPLOAD_FOLDER_def fresh_world_def)
     (simp_all add: audio_def)

lemma upload_file: "files (upload name c) ''file'' = Some (audio name c)"
  by (simp add: upload_def)

lemma audio_a_wav:
  "filename (audio ''a.wav'' c) \<noteq> []"
  "allowed_file (str_case stub_env) (filename (audio ''a.wav'' c))"
  "allowed_file (str_case exiting_env) (filename (audio ''a.wav'' c))"
  "stream (audio ''a.wav'' c) = c"
  by (simp_all add: audio_def stub_env_sel allowed_a_wav) (simp add: ustr_def)

text \<open>C6, as amended, at a concrete request: an empty \<open>a.wav\<close>, on which the stub engine raises.\<close>

theorem engine_fault_500_witness:
  "files (upload ''a.wav'' []) ''file'' = Some (audio ''a.wav'' []) \<and>
   allowed_file (str_case stub_env) (filename (audio ''a.wav'' [])) \<and>
   save_upload stub_env (audio ''a.wav'' []) fresh_world =
     (Inr (), fresh_world\<lparr>fs_files := [''uploads/a.wav'' \<mapsto> []]\<rparr>) \<and>
   whisper_transcribe stub_env (model cpu_globals)
     (fresh_world\<lparr>fs_files := [''uploads/a.wav'' \<mapsto> []]\<rparr>) ''uploads/a.wav'' =
     Inl (Raise EngineFault ''no audio'') \<and>
   is_Exception (Raise EngineFault ''no audio'') \<and>
   fst (transcribe_audio cpu_globals stub_env (upload ''a.wav'' []) fresh_world) =
     Inr (JObj [(''error'', JStr ''no audio''), (''traceback'', JStr ''no audio'')], 500)"
proof -
  let ?file = "audio ''a.wav'' []"
  let ?w1 = "fresh_world\<lparr>fs_files := [''uploads/a.wav'' \<mapsto> []]\<rparr>"
  have f: "files (upload ''a.wav'' []) ''file'' = Some ?file"
    by (rule upload_file)
  have n: "filename ?file \<noteq> []" by (rule audio_a_wav)
  have a: "allowed_file (str_case stub_env) (filename ?file)" by (rule audio_a_wav)
  have s: "save_upload stub_env ?file fresh_world = (Inr (), ?w1)"
    by (rule save_a_wav)
  have x: "whisper_transcribe stub_env (model cpu_globals) ?w1 (upload_path stub_env ?file) =
             Inl (Raise EngineFault ''no audio'')"
    by (simp add: path_a_wav stub_env_sel stub_transcribe_def)
  have i: "is_Exception (Raise EngineFault ''no audio'')" by simp
  from engine_fault_500 [OF f n a s x] f a s x i show ?thesis
    by (simp add: path_a_wav stub_env_sel)
qed

text \<open>
  C6 as the spec states it fails: the upload is stored, the engine raises SystemExit,
  and the handler returns no response (the exception leaves it); the file stays.
\<close>

theorem engine_exit_counterexample:
  "files (upload ''a.wav'' ''RIFF'') ''file'' = Some (audio ''a.wav'' ''RIFF'') \<and>
   allowed_file (str_case exiting_env) (filename (audio ''a.wav'' ''RIFF'')) \<and>
   save_upload exiting_env (audio ''a.wav'' ''RIFF'') fresh_world =
     (Inr (), fresh_world\<lparr>fs_files := [''uploads/a.wav'' \<mapsto> ''RIFF'']\<rparr>) \<and>
   whisper_transcribe exiting_env (model cpu_globals)
     (fresh_world\<lparr>fs_files := [''uploads/a.wav'' \<mapsto> ''RIFF'']\<rparr>) ''uploads/a.wav'' =
     Inl (Raise SystemExit ''1'') \<and>
   fst (transcribe_audio cpu_globals exiting_env (upload ''a.wav'' ''RIFF'') fresh_world) =
     Inl (Raise SystemExit ''1'') \<and>
   fs_files (snd (transcribe_audio cpu_globals exiting_env (upload ''a.wav'' ''RIFF'') fresh_world))
     ''uploads/a.wav'' = Some ''RIFF''"
proof -
  let ?file = "audio ''a.wav'' ''RIFF''"
  let ?w1 = "fresh_world\<lparr>fs_files := [''uploads/a.wav'' \<mapsto> ''RIFF'']\<rparr>"
  have f: "files (upload ''a.wav'' ''RIFF'') ''file'' = Some ?file"
    by (rule upload_file)
  have a: "allowed_file (str_case exiting_env) (filename ?file)" by (rule audio_a_wav)
  have s: "save_upload exiting_env ?file fresh_world = (Inr (), ?w1)"
    by (rule save_a_wav)
  have x: "whisper_transcribe exiting_env (model cpu_globals) ?w1 (upload_path exiting_env ?file) =
             Inl (Raise SystemExit ''1'')"
    by (simp add: stub_env_sel)
  have t: "transcribe_audio cpu_globals exiting_env (upload ''a.wav'' ''RIFF'') fresh_world =
             (Inl (Raise SystemExit ''1''), ?w1\<lparr>engine_calls := [''uploads/a.wav'']\<rparr>)"
    using transcribe_audio_valid [OF f audio_a_wav(1) a, of cpu_globals fresh_world]
      transcribe_try_engine_fault [OF s x]
    by (simp add: path_a_wav) (simp add: fresh_world_def)
  from f a s x t show ?thesis
    by (simp add: path_a_wav)
qed

section \<open>Clean-up of a request handled alone\<close>

text \<open>
  The engine returns or raises an instance of \<open>Exception\<close>: the file is removed, unless
  the operating system refuses. It raises another exception: nothing is removed.
\<close>

lemma alone_clean_up:
  assumes "files req ''file'' = Some file" and "filename file \<noteq> []"
    and "allowed_file (str_case e) (filename file)"
    and "save_upload e file w = (Inr u, w1)"
    and "\<forall>x. whisper_transcribe e (model g) w1 (upload_path e file) = Inl x \<longrightarrow> is_Exception x"
  shows "(upload_path e file \<notin> remove_denied w \<longrightarrow>
            (\<exists>resp. fst (transcribe_audio g e req w) = Inr resp) \<and>
            fs_files (snd (transcribe_audio g e req w)) (upload_path e file) = None) \<and>
         (upload_path e file \<in> remove_denied w \<longrightarrow>
            (\<exists>body. fst (transcribe_audio g e req w) = Inr (body, 500)) \<and>
            fs_files (snd (transcribe_audio g e req w)) (upload_path e file) = Some (stream file))"
proof -
  let ?p = "upload_path e file"
  from save_upload_ok [OF assms(4)]
  have w1: "fs_files w1 ?p = Some (stream file)" "?p \<notin> fs_dirs w1"
    "remove_denied w1 = remove_denied w"
    by simp_all
  note t = transcribe_audio_valid [OF assms(1-3), of g w]
  show ?thesis
  proof (cases "whisper_transcribe e (model g) w1 ?p")
    case (Inl x)
    with assms(5) have "is_Exception x" by simp
    with Inl w1 show ?thesis
      unfolding t transcribe_try_stored [OF assms(4)]
      by (simp add: Let_def os_remove_def transcribe_except_def os_path_exists_def)
  next
    case (Inr result)
    with w1 show ?thesis
      unfolding t transcribe_try_stored [OF assms(4)]
      by (simp add: Let_def os_remove_def transcribe_except_def os_path_exists_def)
  qed
qed

lemma alone_no_clean_up:
  assumes "files req ''file'' = Some file" and "filename file \<noteq> []"
    and "allowed_file (str_case e) (filename file)"
    and "save_upload e file w = (Inr u, w1)"
    and "whisper_transcribe e (model g) w1 (upload_path e file) = Inl x"
    and "\<not> is_Exception x"
  shows "fst (transcribe_audio g e req w) = Inl x \<and>
         fs_files (snd (transcribe_audio g e req w)) (upload_path e file) = Some (stream file)"
  using assms save_upload_ok [OF assms(4)]
  by (simp add: transcribe_audio_valid transcribe_try_engine_fault)

lemma save_a_wav_locked:
  "save_upload stub_env (audio ''a.wav'' c) locked_world =
     (Inr (), locked_world\<lparr>fs_files := [''uploads/a.wav'' \<mapsto> c]\<rparr>)"
  by (simp add: save_upload_def path_a_wav Let_def os_path_exists_def file_save_def
      parent_dir_def dir_exists_def UPLOAD_FOLDER_def fresh_world_def locked_world_def)
     (simp add: audio_def)

text \<open>
  C2 as the spec states it fails: in \<open>locked_world\<close> the upload is written, the engine
  returns, \<open>os.remove\<close> raises at line 124 and again at line 149, and the response is
  sent while \<open>uploads/a.wav\<close> still exists.
\<close>

theorem removal_refused_counterexample:
  "fst (save_upload stub_env (audio ''a.wav'' ''RIFF'') locked_world) = Inr () \<and>
   (\<exists>body. fst (transcribe_audio cpu_globals stub_env (upload ''a.wav'' ''RIFF'') locked_world) =
      Inr (body, 500)) \<and>
   fs_files (snd (transcribe_audio cpu_globals stub_env (upload ''a.wav'' ''RIFF'') locked_world))
     ''uploads/a.wav'' = Some ''RIFF''"
proof -
  let ?file = "audio ''a.wav'' ''RIFF''"
  have f: "files (upload ''a.wav'' ''RIFF'') ''file'' = Some ?file"
    by (rule upload_file)
  have s: "save_upload stub_env ?file locked_world =
             (Inr (), locked_world\<lparr>fs_files := [''uploads/a.wav'' \<mapsto> ''RIFF'']\<rparr>)"
    by (rule save_a_wav_locked)
  have x: "\<forall>x. whisper_transcribe stub_env (model cpu_globals)
                 (locked_world\<lparr>fs_files := [''uploads/a.wav'' \<mapsto> ''RIFF'']\<rparr>)
                 (upload_path stub_env ?file) = Inl x \<longrightarrow> is_Exception x"
    by (simp add: path_a_wav stub_env_sel stub_transcribe_def)
  have d: "upload_path stub_env ?file \<in> remove_denied locked_world"
    by (simp add: path_a_wav locked_world_def)
  from alone_clean_up [OF f audio_a_wav(1) audio_a_wav(2) s x] d s show ?thesis
    by (simp add: path_a_wav audio_a_wav)
qed

section \<open>The path of a stored upload\<close>

lemma os_path_join_inj:
  "os_path_join UPLOAD_FOLDER a = os_path_join UPLOAD_FOLDER b \<longleftrightarrow> a = b"
  by (cases a; cases b) (auto simp: os_path_join_def UPLOAD_FOLDER_def)

text \<open>
  C3, as amended. The path an upload is stored at is determined by its sanitized
  filename alone: two uploads get the same path exactly when \<open>secure_filename\<close> gives
  their filenames the same result. Nothing of the request is added to the name.
\<close>

theorem upload_path_by_name:
  "upload_path e f1 = upload_path e f2 \<longleftrightarrow>
     secure_filename e (filename f1) = secure_filename e (filename f2)"
  by (simp add: upload_path_def os_path_join_inj)

text \<open>C3, as amended, at two uploads with different names: their paths differ.\<close>

theorem upload_path_by_name_witness:
  "secure_filename stub_env (ustr ''a.wav'') \<noteq> secure_filename stub_env (ustr ''b.wav'') \<and>
   upload_path stub_env (audio ''a.wav'' ''first'') \<noteq> upload_path stub_env (audio ''b.wav'' ''first'')"
proof -
  have n: "secure_filename stub_env (ustr ''a.wav'') \<noteq> secure_filename stub_env (ustr ''b.wav'')"
    by (simp add: stub_env_sel werkzeug_secure_filename_def is_space_def py_strip_def ustr_def
        char_of_eq_iff)
  from upload_path_by_name [of stub_env "audio ''a.wav'' ''first''" "audio ''b.wav'' ''first''"] n
  show ?thesis by (simp add: audio_def)
qed

text \<open>
  C3 as the spec states it fails: two different uploads that carry the same filename
  are stored at the same path.
\<close>

theorem same_name_same_path_counterexample:
  "audio ''a.wav'' ''first'' \<noteq> audio ''a.wav'' ''second'' \<and>
   filename (audio ''a.wav'' ''first'') = filename (audio ''a.wav'' ''second'') \<and>
   upload_path stub_env (audio ''a.wav'' ''first'') = upload_path stub_env (audio ''a.wav'' ''second'')"
  by (simp add: path_a_wav) (simp add: audio_def)

section \<open>Clean-up of requests handled concurrently\<close>

lemma os_remove_Inr:
  "os_remove w p = Inr w' \<Longrightarrow>
     w' = w\<lparr>fs_files := (fs_files w)(p := None)\<rparr> \<and> p \<notin> fs_dirs w"
  by (auto simp: os_remove_def split: if_splits)

lemma os_remove_Inl:
  "os_remove w p = Inl x \<Longrightarrow> p \<in> fs_dirs w \<or> fs_files w p = None \<or> p \<in> remove_denied w"
  by (auto simp: os_remove_def split: if_splits)

lemma os_remove_refused:
  "os_remove w p = Inl x \<Longrightarrow> fs_files w p = Some y \<Longrightarrow> p \<notin> fs_dirs w \<Longrightarrow>
     p \<in> remove_denied w"
  by (auto simp: os_remove_def split: if_splits)

lemma file_save_Inr:
  "file_save w c p = Inr w' \<Longrightarrow> w' = w\<lparr>fs_files := (fs_files w)(p \<mapsto> c)\<rparr> \<and> p \<notin> fs_dirs w"
  by (auto simp: file_save_def split: if_splits)

lemma os_makedirs_Inr:
  "os_makedirs w p = Inr w' \<Longrightarrow>
     w' = w\<lparr>fs_dirs := insert p (fs_dirs w)\<rparr> \<and> fs_files w p = None"
  by (auto simp: os_makedirs_def os_path_exists_def split: if_splits)

lemma raise_in_try_simps [simp]:
  "pc_file (raise_in_try file x) = (if is_Exception x then Some file else None)"
  "holding (raise_in_try file x)"
  by (simp_all add: raise_in_try_def)

text \<open>What one step of a thread does to what the invariant speaks of.\<close>

lemma thread_step_effect:
  assumes step: "thread_step g i e req s pc = (pc', s')"
    and known: "\<forall>file. pc_file pc = Some file \<longrightarrow> files req ''file'' = Some file"
    and own: "\<forall>p j. sh_writer s p = Some j \<longrightarrow>
                fs_files (sh_world s) p \<noteq> None \<and> p \<notin> fs_dirs (sh_world s)"
  shows "remove_denied (sh_world s') = remove_denied (sh_world s)"
    and "\<forall>file. pc_file pc' = Some file \<longrightarrow> files req ''file'' = Some file"
    and "\<forall>p j. sh_writer s' p = Some j \<longrightarrow>
           fs_files (sh_world s') p \<noteq> None \<and> p \<notin> fs_dirs (sh_world s') \<and>
           (sh_writer s p = Some j \<or> (j = i \<and> request_path e req = Some p \<and> holding pc'))"
    and "holding pc' \<or>
         (\<not> holding pc \<and> sh_writer s' = sh_writer s) \<or>
         (\<forall>p. request_path e req = Some p \<longrightarrow>
            sh_writer s' p \<noteq> Some i \<or> p \<in> remove_denied (sh_world s))"
    and "\<forall>p. sh_writer s' p = None \<longrightarrow>
           fs_files (sh_world s') p = None \<or>
           (sh_writer s p = None \<and> fs_files (sh_world s') p = fs_files (sh_world s) p)"
proof -
  have unowned: "sh_writer s p = None" if "fs_files (sh_world s) p = None" for p
    using own that by (cases "sh_writer s p") auto
  show "remove_denied (sh_world s') = remove_denied (sh_world s)"
    using step
    by (cases pc)
       (auto simp: os_makedirs_def file_save_def os_remove_def
          split: option.splits if_splits sum.splits)
  show "\<forall>file. pc_file pc' = Some file \<longrightarrow> files req ''file'' = Some file"
    using step known
    by (cases pc) (auto split: option.splits if_splits sum.splits)
  show "\<forall>p j. sh_writer s' p = Some j \<longrightarrow>
           fs_files (sh_world s') p \<noteq> None \<and> p \<notin> fs_dirs (sh_world s') \<and>
           (sh_writer s p = Some j \<or> (j = i \<and> request_path e req = Some p \<and> holding pc'))"
    using step known own
    by (cases pc)
       (auto simp: request_path_def unowned
          dest!: os_remove_Inr file_save_Inr os_makedirs_Inr
          split: option.splits if_splits sum.splits)
  show "holding pc' \<or>
         (\<not> holding pc \<and> sh_writer s' = sh_writer s) \<or>
         (\<forall>p. request_path e req = Some p \<longrightarrow>
            sh_writer s' p \<noteq> Some i \<or> p \<in> remove_denied (sh_world s))"
    using step known own
    by (cases pc)
       (auto simp: request_path_def os_path_exists_def
          dest!: os_remove_Inr os_makedirs_Inr
          dest: os_remove_refused
          split: option.splits if_splits sum.splits)
  show "\<forall>p. sh_writer s' p = None \<longrightarrow>
           fs_files (sh_world s') p = None \<or>
           (sh_writer s p = None \<and> fs_files (sh_world s') p = fs_files (sh_world s) p)"
    using step
    by (cases pc)
       (auto dest!: os_remove_Inr file_save_Inr os_makedirs_Inr
          split: option.splits if_splits sum.splits)
qed


lemma conc_step_out: "\<not> i < length (threads sv) \<Longrightarrow> conc_step g sv i = sv"
  by (simp add: conc_step_def)

lemma conc_step_in:
  assumes "i < length (threads sv)"
    and "thread_step g i (th_env (threads sv ! i)) (th_req (threads sv ! i)) (shared_state sv)
           (th_pc (threads sv ! i)) = (p, s)"
  shows "shared_state (conc_step g sv i) = s"
    and "threads (conc_step g sv i) = (threads sv)[i := (threads sv ! i)\<lparr>th_pc := p\<rparr>]"
  using assms by (simp_all add: conc_step_def Let_def)

text \<open>Every step keeps the invariant, and so does every schedule.\<close>

lemma inv_step:
  assumes inv: "inv w0 sv"
  shows "inv w0 (conc_step g sv i)"
proof (cases "i < length (threads sv)")
  case False
  with inv show ?thesis by (simp add: conc_step_out)
next
  case True
  let ?t = "threads sv ! i"
  let ?s = "shared_state sv"
  obtain p s where step: "thread_step g i (th_env ?t) (th_req ?t) ?s (th_pc ?t) = (p, s)"
    by (cases "thread_step g i (th_env ?t) (th_req ?t) ?s (th_pc ?t)") auto
  note sv' = conc_step_in [OF True step]
  from inv have den: "remove_denied (sh_world ?s) = remove_denied w0"
    and known: "files_known sv" and hold: "writers_hold w0 sv" and kept: "unwritten_kept w0 sv"
    by (simp_all add: inv_def)
  from known True
  have k: "\<forall>file. pc_file (th_pc ?t) = Some file \<longrightarrow> files (th_req ?t) ''file'' = Some file"
    by (simp add: files_known_def)
  from hold
  have o: "\<forall>p j. sh_writer ?s p = Some j \<longrightarrow>
             fs_files (sh_world ?s) p \<noteq> None \<and> p \<notin> fs_dirs (sh_world ?s)"
    by (simp add: writers_hold_def)
  note eff = thread_step_effect [OF step k o]
  have "remove_denied (sh_world (shared_state (conc_step g sv i))) = remove_denied w0"
    using eff(1) den by (simp add: sv')
  moreover have "files_known (conc_step g sv i)"
    unfolding files_known_def sv'
  proof (intro allI impI)
    fix j f
    assume a: "j < length ((threads sv)[i := ?t\<lparr>th_pc := p\<rparr>]) \<and>
               pc_file (th_pc ((threads sv)[i := ?t\<lparr>th_pc := p\<rparr>] ! j)) = Some f"
    show "files (th_req ((threads sv)[i := ?t\<lparr>th_pc := p\<rparr>] ! j)) ''file'' = Some f"
    proof (cases "j = i")
      case True
      with a eff(2) \<open>i < length (threads sv)\<close> show ?thesis by simp
    next
      case False
      with a known show ?thesis by (simp add: files_known_def)
    qed
  qed
  moreover have "writers_hold w0 (conc_step g sv i)"
    unfolding writers_hold_def sv'
  proof (intro allI impI)
    fix q j
    assume w: "sh_writer s q = Some j"
    let ?ts = "(threads sv)[i := ?t\<lparr>th_pc := p\<rparr>]"
    from eff(3) w have f: "fs_files (sh_world s) q \<noteq> None" "q \<notin> fs_dirs (sh_world s)"
      and c: "sh_writer ?s q = Some j \<or>
              (j = i \<and> request_path (th_env ?t) (th_req ?t) = Some q \<and> holding p)"
      by blast+
    have "j < length ?ts \<and>
          request_path (th_env (?ts ! j)) (th_req (?ts ! j)) = Some q \<and>
          (holding (th_pc (?ts ! j)) \<or> q \<in> remove_denied w0)"
    proof (cases "j = i")
      case False
      with c have "sh_writer ?s q = Some j" by simp
      with hold False show ?thesis by (simp add: writers_hold_def)
    next
      case ji: True
      from c show ?thesis
      proof
        assume n: "j = i \<and> request_path (th_env ?t) (th_req ?t) = Some q \<and> holding p"
        with True show ?thesis by simp
      next
        assume old: "sh_writer ?s q = Some j"
        with hold ji have h: "request_path (th_env ?t) (th_req ?t) = Some q"
          "holding (th_pc ?t) \<or> q \<in> remove_denied w0"
          by (simp_all add: writers_hold_def)
        from eff(4) have "holding p \<or> q \<in> remove_denied w0"
        proof (elim disjE)
          assume "holding p"
          then show ?thesis ..
        next
          assume "\<not> holding (th_pc ?t) \<and> sh_writer s = sh_writer ?s"
          with h(2) show ?thesis by simp
        next
          assume "\<forall>p. request_path (th_env ?t) (th_req ?t) = Some p \<longrightarrow>
                    sh_writer s p \<noteq> Some i \<or> p \<in> remove_denied (sh_world ?s)"
          with h(1) w ji den show ?thesis by auto
        qed
        with True ji h(1) show ?thesis by simp
      qed
    qed
    with f show "fs_files (sh_world s) q \<noteq> None \<and> q \<notin> fs_dirs (sh_world s) \<and>
                 j < length ?ts \<and>
                 request_path (th_env (?ts ! j)) (th_req (?ts ! j)) = Some q \<and>
                 (holding (th_pc (?ts ! j)) \<or> q \<in> remove_denied w0)"
      by simp
  qed
  moreover have "unwritten_kept w0 (conc_step g sv i)"
    unfolding unwritten_kept_def sv'
  proof (intro allI impI)
    fix q
    assume "sh_writer s q = None"
    with eff(5) have "fs_files (sh_world s) q = None \<or>
        (sh_writer ?s q = None \<and> fs_files (sh_world s) q = fs_files (sh_world ?s) q)"
      by blast
    moreover from kept have "sh_writer ?s q = None \<Longrightarrow>
        fs_files (sh_world ?s) q = None \<or> fs_files (sh_world ?s) q = fs_files w0 q"
      by (simp add: unwritten_kept_def)
    ultimately show "fs_files (sh_world s) q = None \<or> fs_files (sh_world s) q = fs_files w0 q"
      by auto
  qed
  ultimately show ?thesis by (simp add: inv_def)
qed

lemma inv_start: "inv w (start_server w reqs)"
  by (auto simp: inv_def files_known_def writers_hold_def unwritten_kept_def start_server_def
      split_beta)

lemma inv_run: "inv w0 sv \<Longrightarrow> inv w0 (conc_run g sv sched)"
  unfolding conc_run_def
  by (induction sched arbitrary: sv) (simp_all add: inv_step)

text \<open>A step changes the point a thread has reached, never its request.\<close>

lemma conc_step_requests:
  "map (\<lambda>t. (th_env t, th_req t)) (threads (conc_step g sv i)) =
   map (\<lambda>t. (th_env t, th_req t)) (threads sv)"
proof (cases "i < length (threads sv)")
  case False
  then show ?thesis by (simp add: conc_step_out)
next
  case True
  obtain p s where "thread_step g i (th_env (threads sv ! i)) (th_req (threads sv ! i))
      (shared_state sv) (th_pc (threads sv ! i)) = (p, s)"
    by (cases "thread_step g i (th_env (threads sv ! i)) (th_req (threads sv ! i))
      (shared_state sv) (th_pc (threads sv ! i))") auto
  from conc_step_in(2) [OF True this] True show ?thesis
    by (simp add: map_update list_update_same_conv)
qed

lemma conc_run_requests:
  "map (\<lambda>t. (th_env t, th_req t)) (threads (conc_run g sv sched)) =
   map (\<lambda>t. (th_env t, th_req t)) (threads sv)"
  unfolding conc_run_def
  by (induction sched arbitrary: sv) (simp_all add: conc_step_requests)

lemma start_server_requests:
  "map (\<lambda>t. (th_env t, th_req t)) (threads (start_server w reqs)) = reqs"
  by (simp add: start_server_def comp_def split_def)

lemma run_thread_request:
  assumes "i < length reqs" and "reqs ! i = (e, req)"
  shows "i < length (threads (conc_run g (start_server w reqs) sched))"
    and "th_env (threads (conc_run g (start_server w reqs) sched) ! i) = e"
    and "th_req (threads (conc_run g (start_server w reqs) sched) ! i) = req"
proof -
  let ?ts = "threads (conc_run g (start_server w reqs) sched)"
  have m: "map (\<lambda>t. (th_env t, th_req t)) ?ts = reqs"
    by (simp add: conc_run_requests start_server_requests)
  have "length (map (\<lambda>t. (th_env t, th_req t)) ?ts) = length ?ts" by (rule length_map)
  with m have l: "length ?ts = length reqs" by simp
  with assms(1) show i: "i < length ?ts" by simp
  from i have "map (\<lambda>t. (th_env t, th_req t)) ?ts ! i = (th_env (?ts ! i), th_req (?ts ! i))"
    by (rule nth_map)
  with m have "(th_env (?ts ! i), th_req (?ts ! i)) = reqs ! i"
    by simp
  with assms(2) show "th_env (?ts ! i) = e" and "th_req (?ts ! i) = req" by simp_all
qed

text \<open>
  A request that has returned a response has no file of its own left, unless the
  operating system refuses the removal of its path.
\<close>

lemma concurrent_clean_up:
  assumes "i < length reqs" and "reqs ! i = (e, req)"
    and "files req ''file'' = Some file"
    and "upload_path e file \<notin> remove_denied w"
    and "th_pc (threads (conc_run g (start_server w reqs) sched) ! i) = Done (Inr resp)"
  shows "sh_writer (shared_state (conc_run g (start_server w reqs) sched)) p \<noteq> Some i"
proof
  let ?sv = "conc_run g (start_server w reqs) sched"
  assume o: "sh_writer (shared_state ?sv) p = Some i"
  have "inv w ?sv" by (rule inv_run) (rule inv_start)
  then have "writers_hold w ?sv" by (simp add: inv_def)
  with o have r: "request_path (th_env (threads ?sv ! i)) (th_req (threads ?sv ! i)) = Some p"
    and h: "holding (th_pc (threads ?sv ! i)) \<or> p \<in> remove_denied w"
    by (simp_all add: writers_hold_def)
  from r run_thread_request(2,3) [OF assms(1,2), of g w sched] assms(3)
  have "p = upload_path e file" by (simp add: request_path_def)
  with h assms(4,5) show False by simp
qed


text \<open>A file of the storage was written by a request, or was there before and is untouched.\<close>

lemma concurrent_files:
  "fs_files (sh_world (shared_state (conc_run g (start_server w reqs) sched))) p = None \<or>
   sh_writer (shared_state (conc_run g (start_server w reqs) sched)) p \<noteq> None \<or>
   fs_files (sh_world (shared_state (conc_run g (start_server w reqs) sched))) p = fs_files w p"
proof -
  let ?sv = "conc_run g (start_server w reqs) sched"
  have "inv w ?sv" by (rule inv_run) (rule inv_start)
  then have "unwritten_kept w ?sv" by (simp add: inv_def)
  then show ?thesis by (auto simp: unwritten_kept_def)
qed

section \<open>The two models of the handler agree\<close>

lemma os_raise_Exception:
  "os_makedirs w p = Inl x \<Longrightarrow> is_Exception x"
  "file_save w c p = Inl x \<Longrightarrow> is_Exception x"
  "os_remove w p = Inl x \<Longrightarrow> is_Exception x"
  by (auto simp: os_makedirs_def file_save_def os_remove_def split: if_splits)

text \<open>Every step of the handler is a step of \<open>thread_next\<close>, or stays in its control state.\<close>

lemma thread_step_phase:
  assumes "thread_step g i e req s pc = (pc', s')"
  shows "pc_phase pc' = pc_phase pc \<or> pc_phase pc' \<in> set (thread_next (pc_phase pc))"
  using assms
  by (cases pc)
     (auto simp: raise_in_try_def dest: os_raise_Exception
        split: option.splits if_splits sum.splits)

lemma run_thread_Done: "run_thread g i e req n (Done r, s) = (Done r, s)"
  by (induction n) simp_all

lemma run_thread_add:
  "run_thread g i e req (m + n) x = run_thread g i e req n (run_thread g i e req m x)"
  by (induction m arbitrary: x) simp_all

lemma ends_Done: "ends_in g i e req n (Done r) s (r, sh_world s)"
  by (simp add: ends_in_def run_thread_Done)

lemma ends_step:
  "thread_step g i e req s p = (p', s') \<Longrightarrow> ends_in g i e req n p' s' out \<Longrightarrow>
     ends_in g i e req (Suc n) p s out"
  by (simp add: ends_in_def)

lemma ends_later:
  assumes "ends_in g i e req n p s out"
  shows "ends_in g i e req (n + k) p s out"
proof -
  obtain q s' where r: "run_thread g i e req n (p, s) = (q, s')"
    by (cases "run_thread g i e req n (p, s)") auto
  with assms have "q = Done (fst out)" and "sh_world s' = snd out"
    by (simp_all add: ends_in_def)
  with r show ?thesis
    by (simp add: ends_in_def run_thread_add run_thread_Done)
qed

lemma ends_except:
  "ends_in g i e req 2 (In_except file x) s
     (case transcribe_except e file x (sh_world s) of (resp, w) \<Rightarrow> (Inr resp, w))"
  by (simp add: ends_in_def numeral_2_eq_2 transcribe_except_def Let_def split: sum.splits)

lemma ends_raise: "ends_in g i e req 2 (raise_in_try file x) s (caught e file x (sh_world s))"
  using ends_except [of g i e req "file" x s] ends_Done [of g i e req 2 "Inl x" s]
  by (simp add: raise_in_try_def caught_def)

lemma ends_remove:
  "ends_in g i e req 3 (At_remove file result) s
     (case os_remove (sh_world s) (upload_path e file) of
        Inl x \<Rightarrow> caught e file x (sh_world s)
      | Inr w \<Rightarrow> (Inr (success_body e result, 200), w))"
proof (cases "os_remove (sh_world s) (upload_path e file)")
  case (Inl x)
  then have "thread_step g i e req s (At_remove file result) = (raise_in_try file x, s)"
    by simp
  from ends_step [OF this ends_raise] Inl show ?thesis
    by (simp add: eval_nat_numeral)
next
  case (Inr w)
  then show ?thesis
    by (simp add: ends_in_def eval_nat_numeral run_thread_Done)
qed

lemma ends_transcribe:
  "ends_in g i e req 5 (At_transcribe file) s (after_store g e file (sh_world s))"
proof -
  let ?p = "upload_path e file"
  let ?s2 = "s\<lparr>sh_world := (sh_world s)\<lparr>engine_calls := engine_calls (sh_world s) @ [?p]\<rparr>\<rparr>"
  let ?r = "whisper_transcribe e (model g) (sh_world s) ?p"
  have 1: "thread_step g i e req s (At_transcribe file) = (In_transcribe file ?r, ?s2)"
    by simp
  show ?thesis
  proof (cases ?r)
    case (Inl x)
    then have 2: "thread_step g i e req ?s2 (In_transcribe file ?r) = (raise_in_try file x, ?s2)"
      by simp
    from ends_later [OF ends_step [OF 1 ends_step [OF 2 ends_raise]], of 1] Inl
    show ?thesis by (simp add: eval_nat_numeral after_store_def Let_def)
  next
    case (Inr result)
    then have 2: "thread_step g i e req ?s2 (In_transcribe file ?r) = (At_remove file result, ?s2)"
      by simp
    from ends_step [OF 1 ends_step [OF 2 ends_remove]] Inr
    show ?thesis by (simp add: eval_nat_numeral after_store_def Let_def cong: sum.case_cong)
  qed
qed

lemma ends_save:
  "ends_in g i e req 7 (At_save file) s
     (case file_save (sh_world s) (stream file) (upload_path e file) of
        Inl x \<Rightarrow> caught e file x (sh_world s)
      | Inr w \<Rightarrow>
          if os_path_exists w (upload_path e file) then after_store g e file w
          else caught e file (Raise FileNotFoundError (NOT_SAVED @ upload_path e file)) w)"
proof (cases "file_save (sh_world s) (stream file) (upload_path e file)")
  case (Inl x)
  then have "thread_step g i e req s (At_save file) = (raise_in_try file x, s)"
    by simp
  from ends_later [OF ends_step [OF this ends_raise], of 4] Inl show ?thesis
    by (simp add: eval_nat_numeral)
next
  case (Inr w)
  let ?p = "upload_path e file"
  let ?s1 = "s\<lparr>sh_world := w, sh_writer := (sh_writer s)(?p \<mapsto> i)\<rparr>"
  from Inr have 1: "thread_step g i e req s (At_save file) = (At_exists_file file, ?s1)"
    by simp
  show ?thesis
  proof (cases "os_path_exists w ?p")
    case True
    then have 2: "thread_step g i e req ?s1 (At_exists_file file) = (At_transcribe file, ?s1)"
      by simp
    from ends_step [OF 1 ends_step [OF 2 ends_transcribe]] Inr True show ?thesis
      by (simp add: eval_nat_numeral)
  next
    case False
    then have 2: "thread_step g i e req ?s1 (At_exists_file file) =
        (raise_in_try file (Raise FileNotFoundError (NOT_SAVED @ ?p)), ?s1)"
      by simp
    from ends_later [OF ends_step [OF 1 ends_step [OF 2 ends_raise]], of 3] Inr False
    show ?thesis by (simp add: eval_nat_numeral)
  qed
qed

lemma ends_try:
  "ends_in g i e req 9 (At_exists_folder file) s
     (if \<not> os_path_exists (sh_world s) UPLOAD_FOLDER
      then (case os_makedirs (sh_world s) UPLOAD_FOLDER of
              Inl x \<Rightarrow> caught e file x (sh_world s)
            | Inr w \<Rightarrow>
                (case file_save w (stream file) (upload_path e file) of
                   Inl x \<Rightarrow> caught e file x w
                 | Inr w2 \<Rightarrow>
                     if os_path_exists w2 (upload_path e file) then after_store g e file w2
                     else caught e file (Raise FileNotFoundError (NOT_SAVED @ upload_path e file)) w2))
      else (case file_save (sh_world s) (stream file) (upload_path e file) of
              Inl x \<Rightarrow> caught e file x (sh_world s)
            | Inr w2 \<Rightarrow>
                if os_path_exists w2 (upload_path e file) then after_store g e file w2
                else caught e file (Raise FileNotFoundError (NOT_SAVED @ upload_path e file)) w2))"
proof (cases "os_path_exists (sh_world s) UPLOAD_FOLDER")
  case True
  then have "thread_step g i e req s (At_exists_folder file) = (At_save file, s)"
    by simp
  from ends_later [OF ends_step [OF this ends_save], of 1] True show ?thesis
    by (simp add: eval_nat_numeral)
next
  case False
  then have 1: "thread_step g i e req s (At_exists_folder file) = (At_makedirs file, s)"
    by simp
  show ?thesis
  proof (cases "os_makedirs (sh_world s) UPLOAD_FOLDER")
    case (Inl x)
    then have 2: "thread_step g i e req s (At_makedirs file) = (raise_in_try file x, s)"
      by simp
    from ends_later [OF ends_step [OF 1 ends_step [OF 2 ends_raise]], of 5] Inl False
    show ?thesis by (simp add: eval_nat_numeral)
  next
    case (Inr w)
    then have 2: "thread_step g i e req s (At_makedirs file) = (At_save file, s\<lparr>sh_world := w\<rparr>)"
      by simp
    from ends_step [OF 1 ends_step [OF 2 ends_save]] Inr False
    show ?thesis by (simp add: eval_nat_numeral cong: sum.case_cong)
  qed
qed

text \<open>The same result, as \<open>transcribe_audio\<close> computes it.\<close>

lemma try_result:
  "(case transcribe_try g e file w of
      (Inr body, w1) \<Rightarrow> (Inr (body, 200), w1)
    | (Inl x, w1) \<Rightarrow>
        if is_Exception x
        then (case transcribe_except e file x w1 of (resp, w2) \<Rightarrow> (Inr resp, w2))
        else (Inl x, w1)) =
   (if \<not> os_path_exists w UPLOAD_FOLDER
      then (case os_makedirs w UPLOAD_FOLDER of
              Inl x \<Rightarrow> caught e file x w
            | Inr w1 \<Rightarrow>
                (case file_save w1 (stream file) (upload_path e file) of
                   Inl x \<Rightarrow> caught e file x w1
                 | Inr w2 \<Rightarrow>
                     if os_path_exists w2 (upload_path e file) then after_store g e file w2
                     else caught e file (Raise FileNotFoundError (NOT_SAVED @ upload_path e file)) w2))
      else (case file_save w (stream file) (upload_path e file) of
              Inl x \<Rightarrow> caught e file x w
            | Inr w2 \<Rightarrow>
                if os_path_exists w2 (upload_path e file) then after_store g e file w2
                else caught e file (Raise FileNotFoundError (NOT_SAVED @ upload_path e file)) w2))"
  by (simp add: transcribe_try_def save_upload_def after_store_def caught_def Let_def
      split: sum.splits)

text \<open>
  Handled alone, the steps of a request do what \<open>transcribe_audio\<close> does: after ten
  steps the handler is left with the same result and the same world.
\<close>

lemma ends_refused:
  assumes 1: "thread_step g i e req s At_start = (Done r, s)"
    and 2: "transcribe_audio g e req (sh_world s) = (r, sh_world s)"
  shows "ends_in g i e req 10 At_start s (transcribe_audio g e req (sh_world s))"
  using ends_later [OF ends_step [OF 1 ends_Done], of 0 9] 2
  by (simp add: eval_nat_numeral)

lemma run_alone: "ends_in g i e req 10 At_start s (transcribe_audio g e req (sh_world s))"
proof (cases "files req ''file''")
  case None
  then show ?thesis
    by (intro ends_refused [where r = "Inr (JObj [(''error'', JStr ''No file provided'')], 400)"])
       (simp_all add: transcribe_audio_def)
next
  case (Some f)
  show ?thesis
  proof (cases "filename f = []")
    case True
    with Some show ?thesis
      by (intro ends_refused [where r = "Inr (JObj [(''error'', JStr ''No file selected'')], 400)"])
         (simp_all add: transcribe_audio_def)
  next
    case False
    show ?thesis
    proof (cases "allowed_file (str_case e) (filename f)")
      case False
      with Some \<open>filename f \<noteq> []\<close> show ?thesis
        by (intro ends_refused
              [where r = "Inr (JObj [(''error'', JStr ''File type not allowed'')], 400)"])
           (simp_all add: transcribe_audio_def)
    next
      case True
      with Some \<open>filename f \<noteq> []\<close> have f: "files req ''file'' = Some f" "filename f \<noteq> []"
        "allowed_file (str_case e) (filename f)"
        by simp_all
      then have "thread_step g i e req s At_start = (At_exists_folder f, s)"
        by simp
      from ends_step [OF this ends_try] show ?thesis
        by (simp add: eval_nat_numeral transcribe_audio_valid [OF f] try_result)
    qed
  qed
qed

text \<open>A thread that steps alone in the server takes the steps of \<open>run_thread\<close>.\<close>

lemma conc_run_one:
  assumes "i < length (threads sv)"
  shows "(th_pc (threads (conc_run g sv (replicate n i)) ! i),
          shared_state (conc_run g sv (replicate n i))) =
         run_thread g i (th_env (threads sv ! i)) (th_req (threads sv ! i)) n
           (th_pc (threads sv ! i), shared_state sv)"
  using assms
proof (induction n arbitrary: sv)
  case 0
  show ?case by (simp add: conc_run_def)
next
  case (Suc n)
  let ?t = "threads sv ! i"
  obtain p s where step: "thread_step g i (th_env ?t) (th_req ?t) (shared_state sv) (th_pc ?t) = (p, s)"
    by (cases "thread_step g i (th_env ?t) (th_req ?t) (shared_state sv) (th_pc ?t)") auto
  note sv' = conc_step_in [OF Suc.prems step]
  from Suc.prems have l: "i < length (threads (conc_step g sv i))"
    by (simp add: sv')
  have "conc_run g sv (replicate (Suc n) i) = conc_run g (conc_step g sv i) (replicate n i)"
    by (simp add: conc_run_def)
  with Suc.IH [OF l] Suc.prems show ?case
    by (simp add: sv' step)
qed

lemma conc_run_alone:
  assumes "i < length (threads sv)"
    and "run_thread g i (th_env (threads sv ! i)) (th_req (threads sv ! i)) n
           (th_pc (threads sv ! i), shared_state sv) = (p, s)"
  shows "conc_run g sv (replicate n i) =
           sv\<lparr>shared_state := s, threads := (threads sv)[i := (threads sv ! i)\<lparr>th_pc := p\<rparr>]\<rparr>"
  using assms
proof (induction n arbitrary: sv)
  case 0
  then have "p = th_pc (threads sv ! i)" and "s = shared_state sv" by simp_all
  moreover have "(threads sv ! i)\<lparr>th_pc := th_pc (threads sv ! i)\<rparr> = threads sv ! i"
    by (cases "threads sv ! i") simp
  ultimately show ?case
    by (cases sv) (simp add: conc_run_def)
next
  case (Suc n)
  let ?t = "threads sv ! i"
  obtain p1 s1 where step:
    "thread_step g i (th_env ?t) (th_req ?t) (shared_state sv) (th_pc ?t) = (p1, s1)"
    by (cases "thread_step g i (th_env ?t) (th_req ?t) (shared_state sv) (th_pc ?t)") auto
  note sv' = conc_step_in [OF Suc.prems(1) step]
  let ?sv1 = "conc_step g sv i"
  have sv1: "?sv1 = sv\<lparr>shared_state := s1, threads := (threads sv)[i := ?t\<lparr>th_pc := p1\<rparr>]\<rparr>"
    using Suc.prems(1) step by (simp add: conc_step_def Let_def)
  from Suc.prems(1) have l: "i < length (threads ?sv1)"
    by (simp add: sv')
  from Suc.prems have r: "run_thread g i (th_env (threads ?sv1 ! i)) (th_req (threads ?sv1 ! i)) n
       (th_pc (threads ?sv1 ! i), shared_state ?sv1) = (p, s)"
    by (simp add: sv' step)
  have "conc_run g sv (replicate (Suc n) i) = conc_run g ?sv1 (replicate n i)"
    by (simp add: conc_run_def)
  also from Suc.IH [OF l r]
  have "\<dots> = ?sv1\<lparr>shared_state := s, threads := (threads ?sv1)[i := (threads ?sv1 ! i)\<lparr>th_pc := p\<rparr>]\<rparr>" .
  also have "\<dots> = sv\<lparr>shared_state := s, threads := (threads sv)[i := ?t\<lparr>th_pc := p\<rparr>]\<rparr>"
    using Suc.prems(1) by (simp add: sv1)
  finally show ?case .
qed

lemma conc_run_append: "conc_run g sv (a @ b) = conc_run g (conc_run g sv a) b"
  by (simp add: conc_run_def)


lemmas step_defs =
  raise_in_try_def os_path_exists_def file_save_def os_remove_def parent_dir_def
  dir_exists_def UPLOAD_FOLDER_def

lemma store_a_wav:
  assumes "fs_dirs w = {''uploads''}" and "write_denied w = {}"
  shows "run_thread g i stub_env (upload ''a.wav'' c) 4 (At_start, \<lparr>sh_world = w, sh_writer = m\<rparr>) =
     (At_transcribe (audio ''a.wav'' c),
      \<lparr>sh_world = w\<lparr>fs_files := (fs_files w)(''uploads/a.wav'' \<mapsto> c)\<rparr>,
       sh_writer = m(''uploads/a.wav'' \<mapsto> i)\<rparr>)"
  using assms
  by (simp add: eval_nat_numeral upload_file audio_a_wav path_a_wav step_defs)

lemma call_a_wav:
  assumes "fs_files w ''uploads/a.wav'' = Some c'" and "c' \<noteq> []"
  shows "run_thread g i stub_env (upload ''a.wav'' c) 1
           (At_transcribe (audio ''a.wav'' c), \<lparr>sh_world = w, sh_writer = m\<rparr>) =
     (In_transcribe (audio ''a.wav'' c)
        (Inr \<lparr>result_text = c', result_segments = JList [], result_language = ''en''\<rparr>),
      \<lparr>sh_world = w\<lparr>engine_calls := engine_calls w @ [''uploads/a.wav'']\<rparr>, sh_writer = m\<rparr>)"
  using assms
  by (simp add: path_a_wav stub_env_sel stub_transcribe_def)

lemma remove_a_wav:
  assumes "fs_files w ''uploads/a.wav'' = Some c'" and "fs_dirs w = {''uploads''}"
    and "remove_denied w = {}"
  shows "run_thread g i stub_env (upload ''a.wav'' c) 2
           (In_transcribe (audio ''a.wav'' c) (Inr r), \<lparr>sh_world = w, sh_writer = m\<rparr>) =
     (Done (Inr (success_body stub_env r, 200)),
      \<lparr>sh_world = w\<lparr>fs_files := (fs_files w)(''uploads/a.wav'' := None)\<rparr>,
       sh_writer = m(''uploads/a.wav'' := None)\<rparr>)"
  using assms
  by (simp add: eval_nat_numeral path_a_wav step_defs)

lemma remove_a_wav_gone:
  assumes "fs_files w ''uploads/a.wav'' = None" and "fs_dirs w = {''uploads''}"
  shows "run_thread g i stub_env (upload ''a.wav'' c) 3
           (In_transcribe (audio ''a.wav'' c) (Inr r), \<lparr>sh_world = w, sh_writer = m\<rparr>) =
     (Done (Inr (error_body stub_env (Raise FileNotFoundError ''uploads/a.wav''), 500)),
      \<lparr>sh_world = w, sh_writer = m\<rparr>)"
  using assms
  by (simp add: eval_nat_numeral path_a_wav step_defs)


text \<open>
  Two uploads named \<open>a.wav\<close>, handled concurrently: both are saved (the second over the
  first), both engine calls read the second one's bytes, the first request removes the
  file and answers 200 with the second one's text, and the \<open>os.remove\<close> of the second
  raises FileNotFoundError, so that it answers 500. No file is left.
\<close>

lemma two_same_named:
  "conc_run cpu_globals
     (start_server fresh_world [(stub_env, upload ''a.wav'' ''one''), (stub_env, upload ''a.wav'' ''two'')])
     [0, 0, 0, 0, 1, 1, 1, 1, 0, 1, 0, 0, 1, 1, 1] =
   \<lparr>shared_state =
      \<lparr>sh_world = fresh_world\<lparr>engine_calls := [''uploads/a.wav'', ''uploads/a.wav'']\<rparr>,
       sh_writer = Map.empty\<rparr>,
    threads =
      [\<lparr>th_env = stub_env, th_req = upload ''a.wav'' ''one'',
        th_pc = Done (Inr (success_body stub_env
                  \<lparr>result_text = ''two'', result_segments = JList [], result_language = ''en''\<rparr>,
                  200))\<rparr>,
       \<lparr>th_env = stub_env, th_req = upload ''a.wav'' ''two'',
        th_pc = Done (Inr (error_body stub_env (Raise FileNotFoundError ''uploads/a.wav''), 500))\<rparr>]\<rparr>"
proof -
  let ?sv = "\<lambda>w m p0 p1.
    \<lparr>shared_state = \<lparr>sh_world = w, sh_writer = m\<rparr>,
     threads = [\<lparr>th_env = stub_env, th_req = upload ''a.wav'' ''one'', th_pc = p0\<rparr>,
                \<lparr>th_env = stub_env, th_req = upload ''a.wav'' ''two'', th_pc = p1\<rparr>]\<rparr>"
  let ?g = cpu_globals
  let ?p = "''uploads/a.wav''"
  let ?f0 = "audio ''a.wav'' ''one''"
  let ?f1 = "audio ''a.wav'' ''two''"
  let ?two = "Inr \<lparr>result_text = ''two'', result_segments = JList [], result_language = ''en''\<rparr>"
  let ?w1 = "fresh_world\<lparr>fs_files := [?p \<mapsto> ''one'']\<rparr>"
  let ?w2 = "fresh_world\<lparr>fs_files := [?p \<mapsto> ''two'']\<rparr>"
  let ?w3 = "fresh_world\<lparr>fs_files := [?p \<mapsto> ''two''], engine_calls := [?p]\<rparr>"
  let ?w4 = "fresh_world\<lparr>fs_files := [?p \<mapsto> ''two''], engine_calls := [?p, ?p]\<rparr>"
  let ?w5 = "fresh_world\<lparr>engine_calls := [?p, ?p]\<rparr>"
  have 0: "start_server fresh_world
             [(stub_env, upload ''a.wav'' ''one''), (stub_env, upload ''a.wav'' ''two'')] =
           ?sv fresh_world Map.empty At_start At_start"
    by (simp add: start_server_def)
  have 1: "conc_run ?g (?sv fresh_world Map.empty At_start At_start) (replicate 4 0) =
           ?sv ?w1 [?p \<mapsto> 0] (At_transcribe ?f0) At_start"
    using conc_run_alone [of 0 "?sv fresh_world Map.empty At_start At_start" ?g 4]
      store_a_wav [of fresh_world ?g 0 "''one''" Map.empty]
    by (simp add: fresh_world_def path_a_wav)
  have 2: "conc_run ?g (?sv ?w1 [?p \<mapsto> 0] (At_transcribe ?f0) At_start) (replicate 4 1) =
           ?sv ?w2 [?p \<mapsto> 1] (At_transcribe ?f0) (At_transcribe ?f1)"
    using conc_run_alone [of 1 "?sv ?w1 [?p \<mapsto> 0] (At_transcribe ?f0) At_start" ?g 4]
      store_a_wav [of ?w1 ?g 1 "''two''" "[?p \<mapsto> 0]"]
    by (simp add: fresh_world_def path_a_wav)
  have 3: "conc_run ?g (?sv ?w2 [?p \<mapsto> 1] (At_transcribe ?f0) (At_transcribe ?f1)) (replicate 1 0) =
           ?sv ?w3 [?p \<mapsto> 1] (In_transcribe ?f0 ?two) (At_transcribe ?f1)"
    using conc_run_alone [of 0 "?sv ?w2 [?p \<mapsto> 1] (At_transcribe ?f0) (At_transcribe ?f1)" ?g 1]
      call_a_wav [of ?w2 "''two''" ?g 0 "''one''" "[?p \<mapsto> 1]"]
    by (simp add: fresh_world_def path_a_wav)
  have 4: "conc_run ?g (?sv ?w3 [?p \<mapsto> 1] (In_transcribe ?f0 ?two) (At_transcribe ?f1))
             (replicate 1 1) =
           ?sv ?w4 [?p \<mapsto> 1] (In_transcribe ?f0 ?two) (In_transcribe ?f1 ?two)"
    using conc_run_alone
        [of 1 "?sv ?w3 [?p \<mapsto> 1] (In_transcribe ?f0 ?two) (At_transcribe ?f1)" ?g 1]
      call_a_wav [of ?w3 "''two''" ?g 1 "''two''" "[?p \<mapsto> 1]"]
    by (simp add: fresh_world_def path_a_wav)
  have 5: "conc_run ?g (?sv ?w4 [?p \<mapsto> 1] (In_transcribe ?f0 ?two) (In_transcribe ?f1 ?two))
             (replicate 2 0) =
           ?sv ?w5 Map.empty
             (Done (Inr (success_body stub_env
                \<lparr>result_text = ''two'', result_segments = JList [], result_language = ''en''\<rparr>, 200)))
             (In_transcribe ?f1 ?two)"
    using conc_run_alone
        [of 0 "?sv ?w4 [?p \<mapsto> 1] (In_transcribe ?f0 ?two) (In_transcribe ?f1 ?two)" ?g 2]
      remove_a_wav [of ?w4 "''two''" ?g 0 "''one''"
        "\<lparr>result_text = ''two'', result_segments = JList [], result_language = ''en''\<rparr>"
        "[?p \<mapsto> 1]"]
    by (simp add: fresh_world_def path_a_wav)
  have 6: "conc_run ?g
             (?sv ?w5 Map.empty
                (Done (Inr (success_body stub_env
                   \<lparr>result_text = ''two'', result_segments = JList [], result_language = ''en''\<rparr>,
                   200)))
                (In_transcribe ?f1 ?two))
             (replicate 3 1) =
           ?sv ?w5 Map.empty
             (Done (Inr (success_body stub_env
                \<lparr>result_text = ''two'', result_segments = JList [], result_language = ''en''\<rparr>, 200)))
             (Done (Inr (error_body stub_env (Raise FileNotFoundError ?p), 500)))"
    using conc_run_alone
        [of 1 "?sv ?w5 Map.empty
                (Done (Inr (success_body stub_env
                   \<lparr>result_text = ''two'', result_segments = JList [], result_language = ''en''\<rparr>,
                   200)))
                (In_transcribe ?f1 ?two)" ?g 3]
      remove_a_wav_gone [of ?w5 ?g 1 "''two''"
        "\<lparr>result_text = ''two'', result_segments = JList [], result_language = ''en''\<rparr>"
        Map.empty]
    by (simp add: fresh_world_def path_a_wav)
  have s: "[0, 0, 0, 0, 1, 1, 1, 1, 0, 1, 0, 0, 1, 1, 1] =
           replicate 4 0 @ replicate 4 1 @ replicate 1 0 @ replicate 1 1 @ replicate 2 0 @
           replicate 3 (1::nat)"
    by (simp add: eval_nat_numeral)
  show ?thesis
    unfolding s 0 conc_run_append 1 2 3 4 5 6 ..
qed

text \<open>
  C2, as amended. For a request with an upload:
  \<^item> whatever requests are handled concurrently and however their steps interleave,
    once the handler has returned a response no file written by this request is left,
    unless the operating system refuses the removal of its path; a file then found in
    the storage was written by another request or was there from the start, untouched;
  \<^item> handled alone, with the upload stored and the engine returning or raising an
    instance of \<open>Exception\<close>, the stored file is gone when the response is returned,
    unless the operating system refuses the removal: then the response is 500 and the
    file is still there with the upload's bytes;
  \<^item> when the engine raises an exception that is not an instance of \<open>Exception\<close>, no
    clean-up is run: the handler returns no response and the file is still there.
\<close>

theorem stored_upload_removed:
  assumes "files req ''file'' = Some file"
  shows
    "(i < length reqs \<and> reqs ! i = (e, req) \<and> upload_path e file \<notin> remove_denied w \<and>
      th_pc (threads (conc_run g (start_server w reqs) sched) ! i) = Done (Inr resp) \<longrightarrow>
        sh_writer (shared_state (conc_run g (start_server w reqs) sched)) p \<noteq> Some i \<and>
        (fs_files (sh_world (shared_state (conc_run g (start_server w reqs) sched))) p = None \<or>
         sh_writer (shared_state (conc_run g (start_server w reqs) sched)) p \<noteq> None \<or>
         fs_files (sh_world (shared_state (conc_run g (start_server w reqs) sched))) p =
           fs_files w p)) \<and>
     (filename file \<noteq> [] \<and> allowed_file (str_case e) (filename file) \<and>
      save_upload e file w = (Inr u, w1) \<longrightarrow>
        ((\<forall>x. whisper_transcribe e (model g) w1 (upload_path e file) = Inl x \<longrightarrow> is_Exception x) \<and>
         upload_path e file \<notin> remove_denied w \<longrightarrow>
           (\<exists>r. fst (transcribe_audio g e req w) = Inr r) \<and>
           fs_files (snd (transcribe_audio g e req w)) (upload_path e file) = None) \<and>
        ((\<forall>x. whisper_transcribe e (model g) w1 (upload_path e file) = Inl x \<longrightarrow> is_Exception x) \<and>
         upload_path e file \<in> remove_denied w \<longrightarrow>
           (\<exists>body. fst (transcribe_audio g e req w) = Inr (body, 500)) \<and>
           fs_files (snd (transcribe_audio g e req w)) (upload_path e file) = Some (stream file)) \<and>
        (\<forall>x. whisper_transcribe e (model g) w1 (upload_path e file) = Inl x \<and> \<not> is_Exception x \<longrightarrow>
           fst (transcribe_audio g e req w) = Inl x \<and>
           fs_files (snd (transcribe_audio g e req w)) (upload_path e file) = Some (stream file)))"
proof (intro conjI impI allI)
  assume a: "i < length reqs \<and> reqs ! i = (e, req) \<and> upload_path e file \<notin> remove_denied w \<and>
      th_pc (threads (conc_run g (start_server w reqs) sched) ! i) = Done (Inr resp)"
  then show "sh_writer (shared_state (conc_run g (start_server w reqs) sched)) p \<noteq> Some i"
    using concurrent_clean_up [of i reqs e req "file" w g sched resp p] assms by simp
  show "fs_files (sh_world (shared_state (conc_run g (start_server w reqs) sched))) p = None \<or>
         sh_writer (shared_state (conc_run g (start_server w reqs) sched)) p \<noteq> None \<or>
         fs_files (sh_world (shared_state (conc_run g (start_server w reqs) sched))) p =
           fs_files w p"
    by (rule concurrent_files)
next
  assume v: "filename file \<noteq> [] \<and> allowed_file (str_case e) (filename file) \<and>
      save_upload e file w = (Inr u, w1)"
    and x: "(\<forall>x. whisper_transcribe e (model g) w1 (upload_path e file) = Inl x \<longrightarrow> is_Exception x) \<and>
         upload_path e file \<notin> remove_denied w"
  with alone_clean_up [of req "file" e w u w1 g] assms
  show "\<exists>r. fst (transcribe_audio g e req w) = Inr r"
    and "fs_files (snd (transcribe_audio g e req w)) (upload_path e file) = None"
    by simp_all
next
  assume v: "filename file \<noteq> [] \<and> allowed_file (str_case e) (filename file) \<and>
      save_upload e file w = (Inr u, w1)"
    and x: "(\<forall>x. whisper_transcribe e (model g) w1 (upload_path e file) = Inl x \<longrightarrow> is_Exception x) \<and>
         upload_path e file \<in> remove_denied w"
  with alone_clean_up [of req "file" e w u w1 g] assms
  show "\<exists>body. fst (transcribe_audio g e req w) = Inr (body, 500)"
    and "fs_files (snd (transcribe_audio g e req w)) (upload_path e file) = Some (stream file)"
    by simp_all
next
  fix x
  assume v: "filename file \<noteq> [] \<and> allowed_file (str_case e) (filename file) \<and>
      save_upload e file w = (Inr u, w1)"
    and x: "whisper_transcribe e (model g) w1 (upload_path e file) = Inl x \<and> \<not> is_Exception x"
  with alone_no_clean_up [of req "file" e w u w1 g x] assms
  show "fst (transcribe_audio g e req w) = Inl x"
    and "fs_files (snd (transcribe_audio g e req w)) (upload_path e file) = Some (stream file)"
    by simp_all
qed


text \<open>
  C2, as amended, at concrete requests: the second of the two same-named uploads above,
  whose \<open>os.remove\<close> raises FileNotFoundError, and the same upload handled alone.
\<close>

theorem stored_upload_removed_witness:
  "files (upload ''a.wav'' ''two'') ''file'' = Some (audio ''a.wav'' ''two'') \<and>
   (1::nat) < length [(stub_env, upload ''a.wav'' ''one''), (stub_env, upload ''a.wav'' ''two'')] \<and>
   [(stub_env, upload ''a.wav'' ''one''), (stub_env, upload ''a.wav'' ''two'')] ! 1 =
     (stub_env, upload ''a.wav'' ''two'') \<and>
   upload_path stub_env (audio ''a.wav'' ''two'') \<notin> remove_denied fresh_world \<and>
   th_pc (threads (conc_run cpu_globals
       (start_server fresh_world
          [(stub_env, upload ''a.wav'' ''one''), (stub_env, upload ''a.wav'' ''two'')])
       [0, 0, 0, 0, 1, 1, 1, 1, 0, 1, 0, 0, 1, 1, 1]) ! 1) =
     Done (Inr (error_body stub_env (Raise FileNotFoundError ''uploads/a.wav''), 500)) \<and>
   sh_writer (shared_state (conc_run cpu_globals
       (start_server fresh_world
          [(stub_env, upload ''a.wav'' ''one''), (stub_env, upload ''a.wav'' ''two'')])
       [0, 0, 0, 0, 1, 1, 1, 1, 0, 1, 0, 0, 1, 1, 1])) ''uploads/a.wav'' \<noteq> Some 1 \<and>
   fs_files (sh_world (shared_state (conc_run cpu_globals
       (start_server fresh_world
          [(stub_env, upload ''a.wav'' ''one''), (stub_env, upload ''a.wav'' ''two'')])
       [0, 0, 0, 0, 1, 1, 1, 1, 0, 1, 0, 0, 1, 1, 1]))) ''uploads/a.wav'' = None \<and>
   allowed_file (str_case stub_env) (filename (audio ''a.wav'' ''two'')) \<and>
   save_upload stub_env (audio ''a.wav'' ''two'') fresh_world =
     (Inr (), fresh_world\<lparr>fs_files := [''uploads/a.wav'' \<mapsto> ''two'']\<rparr>) \<and>
   whisper_transcribe stub_env (model cpu_globals)
     (fresh_world\<lparr>fs_files := [''uploads/a.wav'' \<mapsto> ''two'']\<rparr>) ''uploads/a.wav'' =
     Inr \<lparr>result_text = ''two'', result_segments = JList [], result_language = ''en''\<rparr> \<and>
   fs_files (snd (transcribe_audio cpu_globals stub_env (upload ''a.wav'' ''two'') fresh_world))
     ''uploads/a.wav'' = None"
proof -
  let ?reqs = "[(stub_env, upload ''a.wav'' ''one''), (stub_env, upload ''a.wav'' ''two'')]"
  let ?sched = "[0, 0, 0, 0, 1, 1, 1, 1, 0, 1, 0, 0, 1, 1, 1]"
  let ?f = "audio ''a.wav'' ''two''"
  let ?w1 = "fresh_world\<lparr>fs_files := [''uploads/a.wav'' \<mapsto> ''two'']\<rparr>"
  let ?resp = "(error_body stub_env (Raise FileNotFoundError ''uploads/a.wav''), 500)"
  have f: "files (upload ''a.wav'' ''two'') ''file'' = Some ?f"
    by (rule upload_file)
  have c: "(1::nat) < length ?reqs \<and> ?reqs ! 1 = (stub_env, upload ''a.wav'' ''two'') \<and>
      upload_path stub_env ?f \<notin> remove_denied fresh_world \<and>
      th_pc (threads (conc_run cpu_globals (start_server fresh_world ?reqs) ?sched) ! 1) =
        Done (Inr ?resp)"
    unfolding two_same_named by (simp add: path_a_wav) (simp add: fresh_world_def)
  have n: "fs_files (sh_world (shared_state
      (conc_run cpu_globals (start_server fresh_world ?reqs) ?sched))) ''uploads/a.wav'' = None"
    unfolding two_same_named by (simp add: fresh_world_def)
  have v: "filename ?f \<noteq> [] \<and> allowed_file (str_case stub_env) (filename ?f) \<and>
      save_upload stub_env ?f fresh_world = (Inr (), ?w1)"
    by (simp add: audio_a_wav save_a_wav)
  have r: "whisper_transcribe stub_env (model cpu_globals) ?w1 ''uploads/a.wav'' =
     Inr \<lparr>result_text = ''two'', result_segments = JList [], result_language = ''en''\<rparr>"
    by (simp add: stub_env_sel stub_transcribe_def)
  then have x: "(\<forall>x. whisper_transcribe stub_env (model cpu_globals) ?w1
        (upload_path stub_env ?f) = Inl x \<longrightarrow> is_Exception x) \<and>
      upload_path stub_env ?f \<notin> remove_denied fresh_world"
    by (simp add: path_a_wav) (simp add: fresh_world_def)
  from stored_upload_removed
         [OF f, of 1 ?reqs stub_env fresh_world cpu_globals ?sched ?resp "''uploads/a.wav''"
            "()" ?w1]
       f c n v r x
  show ?thesis
    by (simp add: path_a_wav)
qed

section \<open>The size limit\<close>

lemma max_content_length_value: "MAX_CONTENT_LENGTH = 52428800"
  by (simp add: MAX_CONTENT_LENGTH_def)

text \<open>
  C9. The limit is 50 MiB. A POST /transcribe request whose body is longer is rejected
  at the boundary with the oversize error, before the handler runs: the world is
  unchanged, so nothing is stored and the engine is not called. A request of at most
  50 MiB is not rejected for its size: it gets the handler's answer.
\<close>

theorem oversize_rejected:
  "MAX_CONTENT_LENGTH = 50 * 2 ^ 20 \<and>
   (MAX_CONTENT_LENGTH < content_length req \<longrightarrow>
      post_transcribe g e req w = Inl RequestEntityTooLarge \<and>
      dispatch g e cu (PostTranscribe req) w = (Rejected RequestEntityTooLarge, g, w)) \<and>
   (content_length req \<le> MAX_CONTENT_LENGTH \<longrightarrow>
      post_transcribe g e req w = Inr (transcribe_audio g e req w))"
  by (simp add: post_transcribe_def dispatch_def MAX_CONTENT_LENGTH_def)

text \<open>C9 at two concrete requests, of 50 MiB + 1 byte and of exactly 50 MiB.\<close>

theorem oversize_rejected_witness:
  "MAX_CONTENT_LENGTH < content_length ((upload ''a.wav'' ''RIFF'')\<lparr>content_length := 52428801\<rparr>) \<and>
   dispatch cpu_globals stub_env no_gpu
     (PostTranscribe ((upload ''a.wav'' ''RIFF'')\<lparr>content_length := 52428801\<rparr>)) fresh_world =
     (Rejected RequestEntityTooLarge, cpu_globals, fresh_world) \<and>
   content_length ((upload ''a.wav'' ''RIFF'')\<lparr>content_length := 52428800\<rparr>) \<le> MAX_CONTENT_LENGTH \<and>
   post_transcribe cpu_globals stub_env ((upload ''a.wav'' ''RIFF'')\<lparr>content_length := 52428800\<rparr>)
     fresh_world =
     Inr (transcribe_audio cpu_globals stub_env
            ((upload ''a.wav'' ''RIFF'')\<lparr>content_length := 52428800\<rparr>) fresh_world)"
proof -
  let ?big = "(upload ''a.wav'' ''RIFF'')\<lparr>content_length := 52428801\<rparr>"
  let ?ok = "(upload ''a.wav'' ''RIFF'')\<lparr>content_length := 52428800\<rparr>"
  have b: "MAX_CONTENT_LENGTH < content_length ?big"
    by (simp add: max_content_length_value)
  have k: "content_length ?ok \<le> MAX_CONTENT_LENGTH"
    by (simp add: max_content_length_value)
  from oversize_rejected [of ?big cpu_globals stub_env fresh_world no_gpu]
       oversize_rejected [of ?ok cpu_globals stub_env fresh_world no_gpu] b k
  show ?thesis by blast
qed

section \<open>The health report\<close>

text \<open>
  C7. Every GET /health is answered with status 200 and a JSON object (with no member
  named twice). Without a GPU the report is still produced: \<open>gpu_info\<close> is
  \<open>{available: false, device_count: 0, device_name: null}\<close> and \<open>memory_info\<close> is the
  empty object.
\<close>

theorem health_always_ok:
  "snd (health_check g e cu) = 200 \<and>
   (\<exists>kvs. fst (health_check g e cu) = JObj kvs \<and> distinct (map fst kvs)) \<and>
   (\<not> is_available cu \<longrightarrow>
      json_get (fst (health_check g e cu)) ''gpu_info'' =
        Some (JObj [(''available'', JBool False), (''device_count'', JInt 0),
                    (''device_name'', JNull)]) \<and>
      json_get (fst (health_check g e cu)) ''memory_info'' = Some (JObj []))"
  by (simp add: health_check_def Let_def json_get_def)

text \<open>C7 on the machine without a GPU: the whole response.\<close>

theorem health_always_ok_witness:
  "\<not> is_available no_gpu \<and>
   health_check cpu_globals stub_env no_gpu =
     (JObj
        [(''status'', JStr ''healthy''),
         (''model'', JStr ''whisper-large''),
         (''device'', JStr ''cpu''),
         (''gpu_info'', JObj [(''available'', JBool False), (''device_count'', JInt 0),
                             (''device_name'', JNull)]),
         (''memory_info'', JObj []),
         (''uptime'', JFloat 0),
         (''timestamp'', JStr ''2024-01-01T00:00:00'')], 200) \<and>
   json_get (fst (health_check cpu_globals stub_env no_gpu)) ''memory_info'' = Some (JObj [])"
proof -
  have n: "\<not> is_available no_gpu" by (simp add: no_gpu_def)
  have v: "health_check cpu_globals stub_env no_gpu =
     (JObj
        [(''status'', JStr ''healthy''),
         (''model'', JStr ''whisper-large''),
         (''device'', JStr ''cpu''),
         (''gpu_info'', JObj [(''available'', JBool False), (''device_count'', JInt 0),
                             (''device_name'', JNull)]),
         (''memory_info'', JObj []),
         (''uptime'', JFloat 0),
         (''timestamp'', JStr ''2024-01-01T00:00:00'')], 200)"
    by (simp add: health_check_def Let_def no_gpu_def cpu_globals_def startup_def stub_env_def)
  from health_always_ok [of cpu_globals stub_env no_gpu] n v show ?thesis
    by blast
qed

text \<open>
  C8, as amended. The health body has exactly the members \<open>status\<close>, \<open>model\<close>,
  \<open>device\<close>, \<open>gpu_info\<close>, \<open>memory_info\<close>, \<open>uptime\<close> and \<open>timestamp\<close>, each once;
  \<open>gpu_info\<close> has \<open>available\<close>, \<open>device_count\<close>, \<open>device_name\<close>; \<open>memory_info\<close> has
  \<open>allocated\<close> and \<open>cached\<close> when a GPU is present and no member otherwise.
\<close>

theorem health_fields:
  "set (json_keys (fst (health_check g e cu))) =
     {''status'', ''model'', ''device'', ''gpu_info'', ''memory_info'', ''uptime'', ''timestamp''} \<and>
   distinct (json_keys (fst (health_check g e cu))) \<and>
   (\<exists>gi. json_get (fst (health_check g e cu)) ''gpu_info'' = Some gi \<and>
      json_keys gi = [''available'', ''device_count'', ''device_name'']) \<and>
   (\<exists>mi. json_get (fst (health_check g e cu)) ''memory_info'' = Some mi \<and>
      json_keys mi = (if is_available cu then [''allocated'', ''cached''] else []))"
  by (simp add: health_check_def Let_def json_get_def json_keys_def) 

text \<open>C8, as amended, on the machine without a GPU.\<close>

theorem health_fields_witness:
  "set (json_keys (fst (health_check cpu_globals stub_env no_gpu))) =
     {''status'', ''model'', ''device'', ''gpu_info'', ''memory_info'', ''uptime'', ''timestamp''} \<and>
   json_get (fst (health_check cpu_globals stub_env no_gpu)) ''memory_info'' = Some (JObj [])"
proof -
  have m: "json_get (fst (health_check cpu_globals stub_env no_gpu)) ''memory_info'' = Some (JObj [])"
    by (simp add: health_check_def Let_def json_get_def no_gpu_def)
  from health_fields [of cpu_globals stub_env no_gpu] m show ?thesis
    by simp
qed

text \<open>
  C8 as the spec states it fails: the body has no member \<open>uptime_seconds\<close>; the
  uptime is under the key \<open>uptime\<close> (line 180).
\<close>

theorem uptime_seconds_counterexample:
  "''uptime_seconds'' \<notin> set (json_keys (fst (health_check cpu_globals stub_env no_gpu))) \<and>
   json_get (fst (health_check cpu_globals stub_env no_gpu)) ''uptime_seconds'' = None \<and>
   json_get (fst (health_check cpu_globals stub_env no_gpu)) ''uptime'' = Some (JFloat 0)"
  by (simp add: health_check_def Let_def json_get_def json_keys_def no_gpu_def cpu_globals_def
      startup_def stub_env_def)

section \<open>Module state across requests\<close>

text \<open>No request changes the globals, and a health request is answered from them.\<close>

lemma dispatch_globals: "fst (snd (dispatch g e cu r w)) = g"
  by (simp add: dispatch_def split: http_request.splits sum.splits prod.splits)

lemma dispatch_health: "fst (dispatch g e cu GetHealth w) = Reply (health_check g e cu)"
  by (simp add: dispatch_def)

lemma serve_Cons:
  "serve g ((e, cu, r) # rs) w =
     (fst (dispatch g e cu r w) # fst (serve g rs (snd (snd (dispatch g e cu r w)))),
      snd (serve g rs (snd (snd (dispatch g e cu r w)))))"
proof -
  obtain rep g1 w1 where d: "dispatch g e cu r w = (rep, g1, w1)"
    by (cases "dispatch g e cu r w") auto
  with dispatch_globals [of g e cu r w] have g1: "g1 = g" by simp
  show ?thesis
    by (simp add: d g1 split: prod.splits)
qed

lemma serve_globals: "fst (snd (serve g rs w)) = g"
proof (induction rs arbitrary: w)
  case Nil
  show ?case by simp
next
  case (Cons x rs)
  obtain e cu r where x: "x = (e, cu, r)" by (cases x) auto
  show ?case
    unfolding x serve_Cons using Cons.IH by simp
qed

lemma serve_length: "length (fst (serve g rs w)) = length rs"
proof (induction rs arbitrary: w)
  case Nil
  show ?case by simp
next
  case (Cons x rs)
  obtain e cu r where x: "x = (e, cu, r)" by (cases x) auto
  show ?case
    unfolding x serve_Cons using Cons.IH by simp
qed

lemma serve_health:
  "i < length rs \<Longrightarrow> rs ! i = (e, cu, GetHealth) \<Longrightarrow>
     fst (serve g rs w) ! i = Reply (health_check g e cu)"
proof (induction rs arbitrary: i w)
  case Nil
  then show ?case by simp
next
  case (Cons x rs)
  obtain e' cu' r' where x: "x = (e', cu', r')" by (cases x) auto
  show ?case
  proof (cases i)
    case 0
    with Cons.prems x show ?thesis
      by (simp add: serve_Cons dispatch_health del: serve.simps)
  next
    case (Suc j)
    with Cons.prems have "j < length rs" and "rs ! j = (e, cu, GetHealth)" by simp_all
    from Cons.IH [OF this] Suc x show ?thesis
      by (simp add: serve_Cons del: serve.simps)
  qed
qed

lemma health_model_device:
  "\<exists>body. health_check g e cu = (body, 200) \<and>
     json_get body ''model'' = Some (JStr ''whisper-large'') \<and>
     json_get body ''device'' = Some (JStr (DEVICE g))"
  by (simp add: health_check_def Let_def json_get_def)

text \<open>
  C10. Whatever requests were served before it, a GET /health served after start-up is
  answered with \<open>model\<close> equal to the constant \<open>whisper-large\<close> and \<open>device\<close> equal to
  the device chosen at start-up (\<open>cuda\<close> if a GPU was available then, else \<open>cpu\<close>),
  whatever \<open>torch.cuda\<close> reports at the time of the request. The \<open>model\<close> member is
  \<open>whisper-large\<close> for any globals \<open>g\<close>, whichever engine handle they hold; the model
  loaded at start-up is named \<open>turbo\<close>; and the globals after any sequence of requests
  are those of start-up.
\<close>

theorem health_model_and_device:
  "(i < length rs \<and> rs ! i = (e, cu, GetHealth) \<longrightarrow>
      (\<exists>body. fst (serve (startup c t0 t1) rs w) ! i = Reply (body, 200) \<and>
         json_get body ''model'' = Some (JStr ''whisper-large'') \<and>
         json_get body ''device'' = Some (JStr (if c then ''cuda'' else ''cpu'')))) \<and>
   json_get (fst (health_check g e cu)) ''model'' = Some (JStr ''whisper-large'') \<and>
   model_name (model (startup c t0 t1)) = ''turbo'' \<and>
   fst (snd (serve (startup c t0 t1) rs w)) = startup c t0 t1"
proof (intro conjI impI)
  assume a: "i < length rs \<and> rs ! i = (e, cu, GetHealth)"
  then have "fst (serve (startup c t0 t1) rs w) ! i = Reply (health_check (startup c t0 t1) e cu)"
    by (simp add: serve_health)
  moreover have "DEVICE (startup c t0 t1) = (if c then ''cuda'' else ''cpu'')"
    by (simp add: startup_def Let_def)
  ultimately show "\<exists>body. fst (serve (startup c t0 t1) rs w) ! i = Reply (body, 200) \<and>
         json_get body ''model'' = Some (JStr ''whisper-large'') \<and>
         json_get body ''device'' = Some (JStr (if c then ''cuda'' else ''cpu''))"
    using health_model_device [of "startup c t0 t1" e cu] by auto
next
  show "json_get (fst (health_check g e cu)) ''model'' = Some (JStr ''whisper-large'')"
    by (simp add: health_check_def Let_def json_get_def)
next
  show "model_name (model (startup c t0 t1)) = ''turbo''"
    by (simp add: startup_def Let_def whisper_load_model_def)
next
  show "fst (snd (serve (startup c t0 t1) rs w)) = startup c t0 t1"
    by (rule serve_globals)
qed


text \<open>C10 at a concrete run: a transcription request, then a health request.\<close>

theorem health_model_and_device_witness:
  "(1::nat) < length [(stub_env, no_gpu, PostTranscribe (upload ''a.wav'' ''RIFF'')),
                      (stub_env, no_gpu, GetHealth)] \<and>
   [(stub_env, no_gpu, PostTranscribe (upload ''a.wav'' ''RIFF'')),
    (stub_env, no_gpu, GetHealth)] ! 1 = (stub_env, no_gpu, GetHealth) \<and>
   (\<exists>body. fst (serve (startup False 0 1)
                 [(stub_env, no_gpu, PostTranscribe (upload ''a.wav'' ''RIFF'')),
                  (stub_env, no_gpu, GetHealth)] fresh_world) ! 1 = Reply (body, 200) \<and>
      json_get body ''model'' = Some (JStr ''whisper-large'') \<and>
      json_get body ''device'' = Some (JStr ''cpu'')) \<and>
   model_name (model (startup False 0 1)) = ''turbo''"
proof -
  let ?rs = "[(stub_env, no_gpu, PostTranscribe (upload ''a.wav'' ''RIFF'')),
              (stub_env, no_gpu, GetHealth)]"
  have h: "(1::nat) < length ?rs \<and> ?rs ! 1 = (stub_env, no_gpu, GetHealth)"
    by simp
  from health_model_and_device
         [where i = 1 and rs = ?rs and e = stub_env and cu = no_gpu and c = False
            and ?t0.0 = 0 and ?t1.0 = 1 and w = fresh_world] h
  show ?thesis by simp
qed

section \<open>Concurrent requests\<close>

text \<open>A step changes one thread, so the number of threads stays; at most all are in the engine.\<close>

lemma server_step_length: "server_step s ev = Some s' \<Longrightarrow> length s' = length s"
  by (auto simp: server_step_def split: prod.splits if_splits)

lemma run_length: "run s evs = Some s' \<Longrightarrow> length s' = length s"
proof (induction evs arbitrary: s)
  case Nil
  then show ?case by simp
next
  case (Cons ev evs)
  then show ?case
    by (auto split: option.splits dest: server_step_length)
qed

lemma in_flight_le: "in_flight s \<le> length s"
  by (simp add: in_flight_def)

text \<open>Each thread can walk into the engine while the others are already there.\<close>

lemma enter_one:
  "run (replicate k Transcribing @ Received # s)
       ([(k, Validated), (k, Stored), (k, Transcribing)] @ evs) =
   run (replicate (Suc k) Transcribing @ s) evs"
  by (simp add: server_step_def nth_append list_update_append replicate_app_Cons_same)

lemma enter_all:
  "run (replicate k Transcribing @ replicate m Received) (enter_engine k m) =
     Some (replicate (k + m) Transcribing)"
proof (induction m arbitrary: k)
  case 0
  show ?case by simp
next
  case (Suc m)
  have "run (replicate k Transcribing @ replicate (Suc m) Received) (enter_engine k (Suc m)) =
        run (replicate (Suc k) Transcribing @ replicate m Received) (enter_engine (Suc k) m)"
    using enter_one [of k "replicate m Received" "enter_engine (Suc k) m"] by simp
  with Suc.IH [of "Suc k"] show ?case by simp
qed

text \<open>
  C1, as amended. With \<open>n\<close> requests handled concurrently, the number of engine calls
  in flight never exceeds \<open>n\<close> (a request has at most one), and it can reach \<open>n\<close>: the
  schedule \<open>enter_engine 0 n\<close> brings all \<open>n\<close> threads inside \<open>model.transcribe\<close> at the
  same time. The source has no mutual exclusion around the engine call.
\<close>

theorem engine_calls_not_serialized:
  "(run (replicate n Received) evs = Some s \<longrightarrow> in_flight s \<le> n) \<and>
   run (replicate n Received) (enter_engine 0 n) = Some (replicate n Transcribing) \<and>
   in_flight (replicate n Transcribing) = n"
proof (intro conjI impI)
  assume "run (replicate n Received) evs = Some s"
  from run_length [OF this] in_flight_le [of s] show "in_flight s \<le> n" by simp
next
  show "run (replicate n Received) (enter_engine 0 n) = Some (replicate n Transcribing)"
    using enter_all [of 0 n] by simp
next
  show "in_flight (replicate n Transcribing) = n"
    by (simp add: in_flight_def)
qed

text \<open>
  C1 as the spec states it fails: two requests, both inside \<open>model.transcribe\<close> at the
  same instant.
\<close>

theorem two_in_flight_counterexample:
  "run [Received, Received]
     [(0, Validated), (0, Stored), (0, Transcribing),
      (1, Validated), (1, Stored), (1, Transcribing)] = Some [Transcribing, Transcribing] \<and>
   \<not> in_flight [Transcribing, Transcribing] \<le> 1"
  by (simp add: server_step_def in_flight_def)

text \<open>C1, as amended, at a concrete run of two requests, one of them refused.\<close>

theorem engine_calls_not_serialized_witness:
  "run (replicate 2 Received)
     [(0, Validated), (0, Stored), (1, Responded 400), (0, Transcribing)] =
     Some [Transcribing, Responded 400] \<and>
   in_flight [Transcribing, Responded 400] \<le> 2"
proof -
  have r: "run (replicate 2 Received)
     [(0, Validated), (0, Stored), (1, Responded 400), (0, Transcribing)] =
     Some [Transcribing, Responded 400]"
    by (simp add: server_step_def numeral_2_eq_2)
  from engine_calls_not_serialized [of 2 _ "[Transcribing, Responded 400]"] r show ?thesis
    by blast
qed

end
